theory Spec2Isabelle
  imports Main "HOL-Library.Word"
begin

section \<open>Outcomes, pointers and C strings\<close>

text \<open>
  The program is a single C translation unit whose state lives in globals. Every function
  of the model takes the globals and returns them updated. A call that does not return
  normally yields an \<open>error\<close> together with the globals at that point:
  \<^item> \<open>Fatal msg\<close>: \<open>FATAL_ERROR\<close> was reached; \<open>fatal_error\<close> prints, calls
    \<open>cleanup\<close> and then \<open>exit(1)\<close>, so the process exit code is always 1;
  \<^item> \<open>Undefined msg\<close>: the C code reads outside an array, through a null, freed or
    never written pointer; the model stops there;
  \<^item> \<open>OutOfFuel\<close>: the recursion bound of the model was reached (the C code has none).

  Allocation never fails in the model (\<open>malloc\<close>, \<open>calloc\<close> and \<open>realloc\<close> return
  memory). A string is kept as its bytes; where the code allocates fewer bytes than it
  then writes (\<open>expand_define\<close>) or writes into a fixed array, the sizes are compared
  and the write outside is undefined. The lines of \<open>LOGV\<close> and \<open>LOGVV\<close> are left
  out. The text of a fatal message is kept without its formatted arguments.
\<close>

datatype error = Fatal string | Undefined string | OutOfFuel

text \<open>
  A pointer-valued memory cell: \<open>Wild\<close> was allocated by \<open>malloc\<close>/\<open>realloc\<close> and
  never written, \<open>Null\<close> is \<open>NULL\<close>, \<open>Ptr x\<close> points to the live object \<open>x\<close>,
  \<open>Freed\<close> is dangling after \<open>free\<close>. A \<open>size_t\<close> cell is \<open>nat option\<close>, with
  \<open>None\<close> for a cell never written.
\<close>

datatype 'a ptr = Wild | Null | Ptr 'a | Freed

definition NUL :: char where
  "NUL = CHR 0x00"

definition CRLF :: string where
  "CRLF = [CHR 0x0D, CHR 0x0A]"

text \<open>The C string stored in a byte array: the bytes before the first NUL.\<close>

definition cstr :: "char list \<Rightarrow> string" where
  "cstr bs = takeWhile (\<lambda>c. c \<noteq> NUL) bs"

text \<open>\<open>realloc\<close> of an array to \<open>n\<close> cells: kept prefix, new cells hold \<open>fill\<close>.\<close>

definition realloc_arr :: "nat \<Rightarrow> 'a \<Rightarrow> 'a list \<Rightarrow> 'a list" where
  "realloc_arr n fill xs = take n xs @ replicate (n - length xs) fill"

section \<open>Globals\<close>

record config =
  path :: "string option"
  preprocess :: bool
  verbose :: bool
  extra_verbose :: bool
  quiet :: bool

datatype parse_state = SEARCHING | CHECKING

datatype rule = DEFINE_AS | BUILD | DEPENDS_ON | CREATED_USING | TARGET

datatype recipe = KEYWORD | SYMBOL | LIST | NESTED_RULE | END

text \<open>
  The two mutable fields of a \<open>syntax_rule\<close>: \<open>char ***list\<close> and \<open>size_t *list_size\<close>.
  For \<open>TARGET\<close>, \<open>list\<close> has one cell pointing to the array of target names and
  \<open>list_size\<close> one cell holding their number. For \<open>DEPENDS_ON\<close> and
  \<open>CREATED_USING\<close>, cell \<open>i\<close> of \<open>list\<close> points to the strings of target \<open>i\<close> and
  cell \<open>i\<close> of \<open>list_size\<close> holds their number.
\<close>

record slots =
  list :: "string ptr list ptr list option"
  list_size :: "nat option list option"

record FILETIME =
  dwLowDateTime :: "32 word"
  dwHighDateTime :: "32 word"

text \<open>
  The file system as the program observes it: \<open>None\<close> when the path cannot be opened
  (\<open>fopen(file, "rb")\<close> and \<open>CreateFileA(..., OPEN_EXISTING, ...)\<close> fail),
  \<open>Some None\<close> when it opens and \<open>GetFileTime\<close> fails, \<open>Some (Some t)\<close> when
  \<open>GetFileTime\<close> yields the last write time \<open>t\<close>.
\<close>

type_synonym filesys = "string \<Rightarrow> FILETIME option option"

datatype event = Stdout string | Spawn string

datatype define_state = GET_NAME | GET_VALUE

text \<open>
  \<open>get_word\<close> returns a pointer, and \<open>check_syntax\<close> hands that pointer down to
  \<open>check_rule\<close> and \<open>handle_list\<close>. Most of the time it addresses storage that the
  callbacks never touch (the static arrays \<open>word\<close>, \<open>basename\<close> and \<open>ext\<close>, or
  \<open>current_scope\<close>), but \<open>get_dependency\<close> returns
  \<open>syntax_rules[DEPENDS_ON].list[i][dep_index]\<close> itself, a string of the dependency
  table. \<open>word_origin\<close> records that: \<open>Some (i, j)\<close> when the pointer last returned by
  \<open>get_word\<close> is string \<open>j\<close> of target \<open>i\<close> in the dependency table, \<open>None\<close>
  otherwise.
\<close>

record xmk =
  cfg :: config
  build_target :: "string option"
  current_scope :: "string option"
  file_buffer :: "char list option"
  line :: nat
  def_names :: "string list"
  def_values :: "string list"
  def_n :: nat
  def_selected_i :: nat
  def_state :: define_state
  syntax_rules :: "rule \<Rightarrow> slots"
  step_i :: "nat \<times> nat"
  keyword_i :: "nat \<times> nat"
  recipe_i :: "nat \<times> nat"
  recursion_level :: nat
  word_origin :: "(nat \<times> nat) option"
  disk :: filesys
  out :: "event list"

type_synonym 'a res = "(error \<times> xmk) + ('a \<times> xmk)"

definition fatal :: "string \<Rightarrow> xmk \<Rightarrow> 'a res" where
  "fatal msg s = Inl (Fatal msg, s)"

definition undefined_behaviour :: "string \<Rightarrow> xmk \<Rightarrow> 'a res" where
  "undefined_behaviour msg s = Inl (Undefined msg, s)"

definition printf :: "string \<Rightarrow> xmk \<Rightarrow> xmk" where
  "printf str s = s\<lparr>out := out s @ [Stdout str]\<rparr>"

text \<open>Reading cell \<open>i\<close> of an array; outside the array the read is undefined.\<close>

definition cell :: "'a list \<Rightarrow> nat \<Rightarrow> 'a option" where
  "cell xs i = (if i < length xs then Some (xs ! i) else None)"

section \<open>The host: platform, process spawn, files\<close>

datatype platform = WIN32 | POSIX

text \<open>
  \<open>build(command)\<close> hands the command line to the host (\<open>CreateProcessA\<close> or
  \<open>system\<close>) and returns its exit status; \<open>run\<close> is that primitive together with
  the effect of the command on the files.
\<close>

record host =
  platform :: platform
  run :: "string \<Rightarrow> filesys \<Rightarrow> int \<times> filesys"

definition file_exists :: "string \<Rightarrow> xmk \<Rightarrow> bool" where
  "file_exists file s = (disk s file \<noteq> None)"

definition QuadPart :: "FILETIME \<Rightarrow> 64 word" where
  "QuadPart t = or (push_bit 32 (ucast (dwHighDateTime t))) (ucast (dwLowDateTime t))"

text \<open>
  \<open>update_needed(target, dep)\<close>. Under \<open>WIN32\<close>: \<open>ret\<close> starts \<open>true\<close>; when both
  arguments are non-null and the target table's size cell is allocated, both files are
  opened, and only when both handles are valid and both \<open>GetFileTime\<close> calls succeed is
  \<open>ret\<close> replaced by \<open>dep_time.QuadPart > target_time.QuadPart\<close>. Under
  \<open>_POSIX_VERSION\<close> the body is \<open>/* TODO */ return true;\<close>.
\<close>

definition update_needed :: "host \<Rightarrow> string \<Rightarrow> string \<Rightarrow> xmk \<Rightarrow> bool" where
  "update_needed h target dep s =
     (case platform h of
        POSIX \<Rightarrow> True
      | WIN32 \<Rightarrow>
          (if list_size (syntax_rules s TARGET) = None then True
           else (case (disk s dep, disk s target) of
                   (Some dep_file, Some target_file) \<Rightarrow>
                     (case target_file of
                        None \<Rightarrow> True
                      | Some target_write_time \<Rightarrow>
                          (case dep_file of
                             None \<Rightarrow> True
                           | Some dep_write_time \<Rightarrow>
                               QuadPart dep_write_time > QuadPart target_write_time))
                 | _ \<Rightarrow> True)))"

section \<open>Resolver and executor\<close>

text \<open>
  \<open>target_exists(target, index)\<close>: linear search of the target names. With a null
  \<open>target\<close> or no size cell it prints a line and answers \<open>false\<close>.
\<close>

fun target_scan :: "string ptr list \<Rightarrow> string \<Rightarrow> nat \<Rightarrow> nat \<Rightarrow> error + nat option" where
  "target_scan names target i 0 = Inr None"
| "target_scan names target i (Suc k) =
     (case cell names i of
        Some (Ptr name) \<Rightarrow>
          (if name = target then Inr (Some i) else target_scan names target (Suc i) k)
      | _ \<Rightarrow> Inl (Undefined ''target_exists: strcmp on an invalid target name''))"

definition target_exists :: "string option \<Rightarrow> xmk \<Rightarrow> nat option res" where
  "target_exists target s =
     (case (target, list_size (syntax_rules s TARGET)) of
        (Some t, Some sizes) \<Rightarrow>
          (case cell sizes 0 of
             Some (Some n_targets) \<Rightarrow>
               (if n_targets = 0 then Inr (None, s)
                else (case list (syntax_rules s TARGET) of
                        Some (Ptr names # _) \<Rightarrow>
                          (case target_scan names t 0 n_targets of
                             Inl e \<Rightarrow> Inl (e, s)
                           | Inr r \<Rightarrow> Inr (r, s))
                      | _ \<Rightarrow> undefined_behaviour ''target_exists: no target array'' s))
           | _ \<Rightarrow> undefined_behaviour ''target_exists: size cell never written'' s)
      | _ \<Rightarrow> Inr (None, printf (''No targets have been defined.'' @ CRLF) s))"

text \<open>Cell \<open>i\<close> of a rule's \<open>list_size\<close>, which the caller has checked to be allocated.\<close>

definition size_at :: "rule \<Rightarrow> nat \<Rightarrow> xmk \<Rightarrow> nat option" where
  "size_at r i s =
     (case list_size (syntax_rules s r) of
        None \<Rightarrow> None
      | Some sizes \<Rightarrow> (case cell sizes i of Some (Some n) \<Rightarrow> Some n | _ \<Rightarrow> None))"

text \<open>\<open>rule->list[i][j]\<close>: the pointer cell itself, or \<open>None\<close> when reading it is undefined.\<close>

definition entry_at :: "rule \<Rightarrow> nat \<Rightarrow> nat \<Rightarrow> xmk \<Rightarrow> string ptr option" where
  "entry_at r i j s =
     (case list (syntax_rules s r) of
        None \<Rightarrow> None
      | Some arr \<Rightarrow> (case cell arr i of Some (Ptr strs) \<Rightarrow> cell strs j | _ \<Rightarrow> None))"

text \<open>\<open>free(command)\<close> for \<open>syntax_rules[CREATED_USING].list[target_idx][i]\<close>.\<close>

definition free_command :: "nat \<Rightarrow> nat \<Rightarrow> xmk \<Rightarrow> xmk" where
  "free_command target_idx i s =
     s\<lparr>syntax_rules := (syntax_rules s)
          (CREATED_USING := (syntax_rules s CREATED_USING)
             \<lparr>list := map_option
                 (\<lambda>arr. arr[target_idx :=
                    (case arr ! target_idx of Ptr strs \<Rightarrow> Ptr (strs[i := Freed]) | p \<Rightarrow> p)])
                 (list (syntax_rules s CREATED_USING))\<rparr>)\<rparr>"

text \<open>
  The command loop of \<open>ex_build_target\<close>, from command \<open>i\<close> on, \<open>k\<close> commands left:
  echo unless quiet, spawn, free the string, stop with a fatal error on a nonzero status.
\<close>

fun run_commands :: "host \<Rightarrow> nat \<Rightarrow> nat \<Rightarrow> nat \<Rightarrow> xmk \<Rightarrow> unit res" where
  "run_commands h target_idx i 0 s = Inr ((), s)"
| "run_commands h target_idx i (Suc k) s =
     (case entry_at CREATED_USING target_idx i s of
        Some (Ptr command) \<Rightarrow>
          (let s1 = (if quiet (cfg s) then s else printf (command @ CRLF) s);
               (exit_code, disk') = run h command (disk s1);
               s2 = free_command target_idx i (s1\<lparr>disk := disk', out := out s1 @ [Spawn command]\<rparr>)
           in if exit_code \<noteq> 0 then fatal ''Error [exit_code]'' s2
              else run_commands h target_idx (Suc i) k s2)
      | Some Null \<Rightarrow> fatal ''Command i for target target_idx is empty'' s
      | Some Freed \<Rightarrow> undefined_behaviour ''ex_build_target: command used after free'' s
      | _ \<Rightarrow> undefined_behaviour ''ex_build_target: invalid command cell'' s)"

text \<open>
  \<open>ex_build_target\<close> before its dependency loop: \<open>update_pending\<close> starts
  \<open>false\<close> and becomes \<open>true\<close> when the target's file is missing. The result is the
  flag and, when the dependency loop is to run, the number of dependencies.
  (\<open>LOGV\<close> and \<open>LOGVV\<close> lines are not part of the model.)
\<close>

definition before_dependencies :: "string \<Rightarrow> nat \<Rightarrow> xmk \<Rightarrow> (bool \<times> nat option) res" where
  "before_dependencies target target_idx s =
     (if list_size (syntax_rules s CREATED_USING) = None then Inr ((False, None), s)
      else (case size_at CREATED_USING target_idx s of
              None \<Rightarrow> undefined_behaviour ''ex_build_target: command count'' s
            | Some n_commands \<Rightarrow>
                (let update_pending = \<not> file_exists target s in
                 if list (syntax_rules s DEPENDS_ON) \<noteq> None
                    \<and> list_size (syntax_rules s DEPENDS_ON) \<noteq> None
                 then (case size_at DEPENDS_ON target_idx s of
                         None \<Rightarrow> undefined_behaviour ''ex_build_target: dependency count'' s
                       | Some target_deps \<Rightarrow>
                           (if target_deps = 0 \<and> n_commands = 0
                            then fatal (''No build steps or dependencies have''
                                        @ ''been indicated for target '' @ target) s
                            else Inr ((update_pending, Some target_deps), s)))
                 else Inr ((update_pending, None), s))))"

text \<open>
  \<open>ex_build_target\<close> after its dependency loop: write \<open>update_pending\<close> through
  \<open>parent_update_pending\<close> when that is non-null (\<open>has_parent\<close>), run the commands
  when an update is pending and require the file afterwards. The function ends with
  \<open>return 1;\<close> on every path that returns.
\<close>

definition after_dependencies ::
  "host \<Rightarrow> string \<Rightarrow> nat \<Rightarrow> bool \<Rightarrow> bool \<Rightarrow> xmk \<Rightarrow> (int \<times> bool option) res" where
  "after_dependencies h target target_idx has_parent update_pending s =
     (let written = (if has_parent then Some update_pending else None) in
      if update_pending
      then (case size_at CREATED_USING target_idx s of
              None \<Rightarrow> undefined_behaviour ''ex_build_target: command count'' s
            | Some target_commands \<Rightarrow>
                (case run_commands h target_idx 0 target_commands s of
                   Inl e \<Rightarrow> Inl e
                 | Inr (_, s2) \<Rightarrow>
                     (if \<not> file_exists target s2
                      then fatal (''Commands executed for generating '' @ target
                                  @ '' were successful, but file has not been generated'') s2
                      else Inr ((1, written), s2))))
      else Inr ((1, written), s))"

text \<open>
  One dependency's effect on \<open>update_pending\<close>: the recursive call has overwritten the
  flag when the dependency is a target (\<open>written\<close>), then
  \<open>if (!update_needed(...)) ; else if (!update_pending) update_pending = true;\<close>.
\<close>

definition pending_after :: "host \<Rightarrow> string \<Rightarrow> string \<Rightarrow> bool option \<Rightarrow> bool \<Rightarrow> xmk \<Rightarrow> bool" where
  "pending_after h target dependency written update_pending s =
     (let pending = (case written of Some b \<Rightarrow> b | None \<Rightarrow> update_pending)
      in if \<not> update_needed h target dependency s then pending
         else if \<not> pending then True else pending)"

text \<open>
  \<open>execute_commands\<close> and \<open>ex_build_target\<close> call each other through the dependency
  loop, with no bound and no record of the targets already visited; the model bounds the
  depth of the calls by \<open>fuel\<close>. The second component of a result is what was written
  through \<open>parent_update_pending\<close>, if anything. \<open>dependency_loop\<close> is the \<open>for\<close>
  loop over the dependencies from index \<open>dep\<close> on, \<open>k\<close> left, threading
  \<open>update_pending\<close>.
\<close>

fun execute_commands :: "nat \<Rightarrow> host \<Rightarrow> string \<Rightarrow> bool \<Rightarrow> xmk \<Rightarrow> (int \<times> bool option) res"
  and dependency_loop :: "nat \<Rightarrow> host \<Rightarrow> string \<Rightarrow> nat \<Rightarrow> nat \<Rightarrow> nat \<Rightarrow> bool \<Rightarrow> xmk \<Rightarrow> bool res"
where
  "execute_commands 0 h target has_parent s = Inl (OutOfFuel, s)"
| "execute_commands (Suc fuel) h target has_parent s =
     (case target_exists (Some target) s of
        Inl e \<Rightarrow> Inl e
      | Inr (Some target_idx, s1) \<Rightarrow>
          (case before_dependencies target target_idx s1 of
             Inl e \<Rightarrow> Inl e
           | Inr ((update_pending, None), s2) \<Rightarrow>
               after_dependencies h target target_idx has_parent update_pending s2
           | Inr ((update_pending, Some target_deps), s2) \<Rightarrow>
               (case dependency_loop fuel h target target_idx 0 target_deps update_pending s2 of
                  Inl e \<Rightarrow> Inl e
                | Inr (pending, s3) \<Rightarrow>
                    after_dependencies h target target_idx has_parent pending s3))
      | Inr (None, s1) \<Rightarrow>
          (if \<not> file_exists target s1
           then fatal (''Target '' @ target @ '' could not be found on target list'') s1
           else Inr ((0, None), s1)))"
| "dependency_loop fuel h target target_idx dep 0 update_pending s = Inr (update_pending, s)"
| "dependency_loop fuel h target target_idx dep (Suc k) update_pending s =
     (case entry_at DEPENDS_ON target_idx dep s of
        None \<Rightarrow> undefined_behaviour ''ex_build_target: invalid dependency cell'' s
      | Some (Ptr dependency) \<Rightarrow>
          (case execute_commands fuel h dependency True s of
             Inl e \<Rightarrow> Inl e
           | Inr ((_, written), s1) \<Rightarrow>
               dependency_loop fuel h target target_idx (Suc dep) k
                 (pending_after h target dependency written update_pending s1) s1)
      | Some Null \<Rightarrow> dependency_loop fuel h target target_idx (Suc dep) k update_pending s
      | Some _ \<Rightarrow> undefined_behaviour ''ex_build_target: invalid dependency pointer'' s)"

text \<open>\<open>ex_build_target\<close> itself, as the three parts in sequence.\<close>

definition ex_build_target ::
  "nat \<Rightarrow> host \<Rightarrow> string \<Rightarrow> nat \<Rightarrow> bool \<Rightarrow> xmk \<Rightarrow> (int \<times> bool option) res" where
  "ex_build_target fuel h target target_idx has_parent s =
     (case before_dependencies target target_idx s of
        Inl e \<Rightarrow> Inl e
      | Inr ((update_pending, None), s2) \<Rightarrow>
          after_dependencies h target target_idx has_parent update_pending s2
      | Inr ((update_pending, Some target_deps), s2) \<Rightarrow>
          (case dependency_loop fuel h target target_idx 0 target_deps update_pending s2 of
             Inl e \<Rightarrow> Inl e
           | Inr (pending, s3) \<Rightarrow>
               after_dependencies h target target_idx has_parent pending s3))"

section \<open>Tokenizer\<close>

text \<open>
  The source buffer holds the bytes of the file followed by a terminating NUL; the model
  keeps the bytes and reads the terminator at index \<open>length b\<close>. A read beyond the
  terminator is undefined.
\<close>

definition buf_at :: "char list \<Rightarrow> nat \<Rightarrow> char option" where
  "buf_at b i = (if i < length b then Some (b ! i) else if i = length b then Some NUL else None)"

datatype skipped = End_of_buffer nat bool nat | Found nat bool nat

text \<open>
  The first loop of \<open>get_word\<close>: skip blanks and comments starting at \<open>from\<close>. The
  result is the new \<open>from\<close>, \<open>newline_detected\<close> and \<open>line\<close>, or the end of the buffer.
\<close>

function skip_blanks :: "char list \<Rightarrow> nat \<Rightarrow> bool \<Rightarrow> bool \<Rightarrow> nat \<Rightarrow> skipped option" where
  "skip_blanks b from comment newline_detected ln =
     (case buf_at b from of
        None \<Rightarrow> None
      | Some ch \<Rightarrow>
          (if ch = CHR ''#'' then skip_blanks b (Suc from) True newline_detected ln
           else if ch = NUL then Some (End_of_buffer from newline_detected ln)
           else if ch = CHR 0x0A then skip_blanks b (Suc from) False True (Suc ln)
           else if ch = CHR 0x0D \<or> ch = CHR 0x09 \<or> ch = CHR '' ''
             then skip_blanks b (Suc from) comment newline_detected ln
           else if \<not> comment then Some (Found from newline_detected ln)
           else skip_blanks b (Suc from) comment newline_detected ln))"
  by pat_completeness auto
termination
  by (relation "measure (\<lambda>(b, from, comment, newline_detected, ln). Suc (length b) - from)")
     (auto simp: buf_at_def NUL_def split: if_splits)

declare skip_blanks.simps [simp del]

text \<open>
  The second loop of \<open>get_word\<close>: copy bytes into \<open>static char word[255]\<close> until the
  closing quote (quoted) or a blank (unquoted) or until 254 bytes are stored. The NUL
  terminator does not stop it. The result is the new \<open>from\<close>, the bytes stored and the
  byte \<open>ch\<close> the loop stopped at.
\<close>

definition word_goes_on :: "bool \<Rightarrow> char \<Rightarrow> bool" where
  "word_goes_on quotes ch =
     ((quotes \<and> ch \<noteq> CHR 0x22)
      \<or> (\<not> quotes \<and> ch \<noteq> CHR '' '' \<and> ch \<noteq> CHR 0x09 \<and> ch \<noteq> CHR 0x0A \<and> ch \<noteq> CHR 0x0D))"

function scan_word :: "char list \<Rightarrow> bool \<Rightarrow> nat \<Rightarrow> char list \<Rightarrow> (nat \<times> char list \<times> char) option" where
  "scan_word b quotes from word =
     (case buf_at b from of
        None \<Rightarrow> None
      | Some ch \<Rightarrow>
          (if word_goes_on quotes ch \<and> length word < 254
           then scan_word b quotes (Suc from) (word @ [ch])
           else Some (from, word, ch)))"
  by pat_completeness auto
termination
  by (relation "measure (\<lambda>(b, quotes, from, word). 254 - length word)") auto

declare scan_word.simps [simp del]

text \<open>
  \<open>get_basename\<close> copies the bytes before the first \<open>'.'\<close> into
  \<open>static char basename[255]\<close>. \<open>get_extension\<close> stops at the first \<open>'.'\<close> (or
  at the terminator), steps over it when the byte after it is nonzero, and copies the
  rest into \<open>static char ext[10]\<close>. Without a \<open>'.'\<close> the test \<open>w[1]\<close> reads the
  byte after the terminator.
\<close>

definition get_basename :: "string \<Rightarrow> xmk \<Rightarrow> string option res" where
  "get_basename word s =
     (let base = takeWhile (\<lambda>c. c \<noteq> CHR ''.'') word
      in if length base < 255 then Inr (Some base, s)
         else undefined_behaviour ''get_basename: basename overflows'' s)"

definition get_extension :: "string \<Rightarrow> xmk \<Rightarrow> string option res" where
  "get_extension word s =
     (case dropWhile (\<lambda>c. c \<noteq> CHR ''.'') word of
        [] \<Rightarrow> undefined_behaviour ''get_extension: read after the terminator'' s
      | dot # rest \<Rightarrow>
          (let w = (if rest \<noteq> [] then rest else [dot])
           in if length w < 10 then Inr (Some w, s)
              else undefined_behaviour ''get_extension: ext overflows'' s))"

text \<open>
  \<open>strtol(str, NULL, 0)\<close> on the strings \<open>get_dependency\<close> builds, which hold decimal
  digits only and at most seven of them: a leading \<open>0\<close> selects base 8, anything else
  base 10, and conversion stops at the first byte that is not a digit of the base.
\<close>

definition is_digit :: "char \<Rightarrow> bool" where
  "is_digit c = (of_char (CHR ''0'') \<le> (of_char c :: nat) \<and> (of_char c :: nat) \<le> of_char (CHR ''9''))"

definition digit_val :: "char \<Rightarrow> nat" where
  "digit_val c = of_char c - of_char (CHR ''0'')"

fun strtol_digits :: "nat \<Rightarrow> string \<Rightarrow> nat \<Rightarrow> nat" where
  "strtol_digits base [] acc = acc"
| "strtol_digits base (c # cs) acc =
     (if is_digit c \<and> digit_val c < base
      then strtol_digits base cs (acc * base + digit_val c) else acc)"

definition strtol0 :: "string \<Rightarrow> nat" where
  "strtol0 str =
     (case str of
        [] \<Rightarrow> 0
      | c # cs \<Rightarrow> if c = CHR ''0'' then strtol_digits 8 cs 0 else strtol_digits 10 str 0)"

text \<open>
  \<open>get_dependency(word)\<close>. The loop walks the bytes of \<open>word\<close> after the first five
  (\<open>strlen("$(dep")\<close>) through the states \<open>OPENING_BRACKET\<close>, \<open>INDEX\<close>,
  \<open>CLOSING_BRACKET\<close>; in \<open>INDEX\<close> a digit is stored into \<open>char dep_i_str[8] = {0}\<close>
  when \<open>dep_i_str_idx\<close> is below a bound, and any other byte is fatal. The bound is the
  parameter \<open>room\<close>: the current program tests
  \<open>dep_i_str_idx < strlen(dep_i_str)\<close>, the older \<open>XMK.C\<close> tests
  \<open>dep_i_str_idx < STATIC_STRLEN(dep_i_str)\<close>, which is 7. The dependency found is
  returned as the pointer stored in the table, which \<open>word_origin\<close> records.
\<close>

datatype dep_state = OPENING_BRACKET | INDEX | CLOSING_BRACKET

fun dep_scan ::
  "(char list \<Rightarrow> nat) \<Rightarrow> char list \<Rightarrow> dep_state \<Rightarrow> char list \<Rightarrow> nat \<Rightarrow> xmk \<Rightarrow> (char list \<times> nat) res" where
  "dep_scan room [] state dep_i_str dep_i_str_idx s = Inr ((dep_i_str, dep_i_str_idx), s)"
| "dep_scan room (letter # rest) OPENING_BRACKET dep_i_str dep_i_str_idx s =
     dep_scan room rest (if letter = CHR ''['' then INDEX else OPENING_BRACKET)
       dep_i_str dep_i_str_idx s"
| "dep_scan room (letter # rest) INDEX dep_i_str dep_i_str_idx s =
     (if is_digit letter
      then (let stored = dep_i_str_idx < room dep_i_str;
                str' = (if stored then dep_i_str[dep_i_str_idx := letter] else dep_i_str);
                idx' = (if stored then Suc dep_i_str_idx else dep_i_str_idx)
            in case rest of
                 [] \<Rightarrow> dep_scan room rest INDEX str' idx'
                         (printf (''Missing '' @ [CHR 0x22] @ '']'' @ [CHR 0x22]
                                 @ '' character on dependency index'' @ CRLF) s)
               | nxt # _ \<Rightarrow>
                   dep_scan room rest (if nxt = CHR '']'' then CLOSING_BRACKET else INDEX)
                     str' idx' s)
      else fatal ''Invalid index letter'' s)"
| "dep_scan room (letter # rest) CLOSING_BRACKET dep_i_str dep_i_str_idx s =
     dep_scan room rest CLOSING_BRACKET dep_i_str dep_i_str_idx s"

definition get_dependency_with :: "(char list \<Rightarrow> nat) \<Rightarrow> string \<Rightarrow> xmk \<Rightarrow> string option res" where
  "get_dependency_with room word s =
     (case dep_scan room (drop 5 word) OPENING_BRACKET (replicate 8 NUL) 0 s of
        Inl e \<Rightarrow> Inl e
      | Inr ((dep_i_str, dep_i_str_idx), s1) \<Rightarrow>
          (if 8 \<le> Suc dep_i_str_idx
           then undefined_behaviour ''get_dependency: write after dep_i_str'' s1
           else
             (let dep_index = strtol0 (cstr (dep_i_str[Suc dep_i_str_idx := NUL])) in
              case target_exists (current_scope s1) s1 of
                Inl e \<Rightarrow> Inl e
              | Inr (None, s2) \<Rightarrow> Inr (Some word, s2)
              | Inr (Some i, s2) \<Rightarrow>
                  (if list (syntax_rules s2 DEPENDS_ON) \<noteq> None
                      \<and> list_size (syntax_rules s2 DEPENDS_ON) \<noteq> None
                   then (case size_at DEPENDS_ON i s2 of
                           None \<Rightarrow> undefined_behaviour ''get_dependency: dependency count'' s2
                         | Some target_deps \<Rightarrow>
                             (if target_deps = 0
                              then fatal (''No dependencies are available for target ''
                                          @ (case current_scope s2 of Some scope \<Rightarrow> scope | None \<Rightarrow> [])) s2
                              else if dep_index < target_deps
                              then (case entry_at DEPENDS_ON i dep_index s2 of
                                      Some (Ptr d) \<Rightarrow>
                                        Inr (Some d, s2\<lparr>word_origin := Some (i, dep_index)\<rparr>)
                                    | Some Null \<Rightarrow> Inr (None, s2)
                                    | _ \<Rightarrow> undefined_behaviour
                                             ''get_dependency: invalid dependency cell'' s2)
                              else fatal ''Index dep_index exceeds number of defined dependencies'' s2))
                   else fatal ''Dependencies list has not been allocated'' s2))))"

definition get_dependency :: "string \<Rightarrow> xmk \<Rightarrow> string option res" where
  "get_dependency = get_dependency_with (\<lambda>dep_i_str. length (cstr dep_i_str))"

definition get_dependency_XMK_C :: "string \<Rightarrow> xmk \<Rightarrow> string option res" where
  "get_dependency_XMK_C = get_dependency_with (\<lambda>dep_i_str. 7)"

text \<open>\<open>is_define(name)\<close>: first index below \<open>defines.n\<close> whose name equals \<open>name\<close>.\<close>

fun define_scan :: "string list \<Rightarrow> string \<Rightarrow> nat \<Rightarrow> nat \<Rightarrow> error + nat option" where
  "define_scan names name i 0 = Inr None"
| "define_scan names name i (Suc k) =
     (case cell names i of
        None \<Rightarrow> Inl (Undefined ''is_define: read after defines.names'')
      | Some nm \<Rightarrow> if nm = name then Inr (Some i) else define_scan names name (Suc i) k)"

definition is_define :: "string \<Rightarrow> xmk \<Rightarrow> bool res" where
  "is_define name s =
     (case define_scan (def_names s) name 0 (def_n s) of
        Inl e \<Rightarrow> Inl (e, s)
      | Inr None \<Rightarrow> Inr (False, s)
      | Inr (Some i) \<Rightarrow> Inr (True, s\<lparr>def_selected_i := i\<rparr>))"

text \<open>
  \<open>expand_define(&buffer[from], word)\<close> with \<open>buffer == file_buffer\<close>. When a zero
  byte follows the token the result is \<open>NULL\<close>. Otherwise the text after the token is
  copied aside, the buffer is reallocated to
  \<open>new_length = before_length + value_length + after_length\<close> bytes, and two calls of
  \<open>strcpy\<close> write the selected define's value at \<open>before_length\<close> and the text
  after the token at \<open>before_length + value_length\<close>, each with its terminator: the
  first writes the bytes up to index \<open>before_length + value_length\<close>, the second the
  bytes up to index \<open>before_length + value_length + after_length\<close>. A write at an
  index that is not below \<open>new_length\<close> is outside the block.
\<close>

definition expand_define :: "nat \<Rightarrow> string \<Rightarrow> xmk \<Rightarrow> bool res" where
  "expand_define from word s =
     (case file_buffer s of
        None \<Rightarrow> undefined_behaviour ''expand_define: no buffer'' s
      | Some b \<Rightarrow>
          (case buf_at b (from + length word) of
             None \<Rightarrow> undefined_behaviour ''expand_define: read after the buffer'' s
           | Some c \<Rightarrow>
               (if c = NUL then Inr (False, s)
                else (case cell (def_values s) (def_selected_i s) of
                        None \<Rightarrow> undefined_behaviour ''expand_define: read after defines.values'' s
                      | Some val \<Rightarrow>
                          (let before_length = from;
                               after_temp = cstr (drop (from + length word) b);
                               after_length = length after_temp;
                               value_length = length val;
                               new_length = before_length + value_length + after_length
                           in if before_length + value_length < new_length
                                 \<and> before_length + value_length + after_length < new_length
                              then Inr (True, s\<lparr>file_buffer :=
                                          Some (take before_length b @ val @ after_temp)\<rparr>)
                              else undefined_behaviour
                                     ''expand_define: strcpy writes after the reallocated buffer'' s)))))"

text \<open>\<open>strstr(haystack, needle) != NULL\<close>.\<close>

fun strstr :: "string \<Rightarrow> string \<Rightarrow> bool" where
  "strstr [] needle = (needle = [])"
| "strstr (c # cs) needle = (take (length needle) (c # cs) = needle \<or> strstr cs needle)"

text \<open>
  What \<open>get_word\<close> does with a word once it is formed, up to the point where a define
  is to be expanded: the result is either the pointer to return (\<open>None\<close> is \<open>NULL\<close>) or
  the request to expand and tokenize again.
\<close>

datatype formed = Return "string option" | Expand

definition form_word :: "bool \<Rightarrow> string \<Rightarrow> xmk \<Rightarrow> formed res" where
  "form_word quotes word s =
     (if \<not> quotes \<and> 1 < length word
      then (if hd word = CHR ''$''
            then (if word ! 1 = CHR ''$'' then Inr (Return (Some (tl word)), s)
                  else if word ! 1 = CHR ''(''
                  then (if word = ''$(target)''
                        then (case current_scope s of
                                Some scope \<Rightarrow> Inr (Return (Some scope), s)
                              | None \<Rightarrow> fatal ''$(target) must be used inside target scope'' s)
                        else if word = ''$(target_name)''
                        then (case current_scope s of
                                Some scope \<Rightarrow>
                                  (case get_basename scope s of
                                     Inl e \<Rightarrow> Inl e | Inr (w, s1) \<Rightarrow> Inr (Return w, s1))
                              | None \<Rightarrow> fatal ''$(target_name) must be used inside target scope'' s)
                        else if word = ''$(target_ext)''
                        then (case current_scope s of
                                Some scope \<Rightarrow>
                                  (case get_extension scope s of
                                     Inl e \<Rightarrow> Inl e | Inr (w, s1) \<Rightarrow> Inr (Return w, s1))
                              | None \<Rightarrow> fatal ''$(target_ext) must be used inside target scope'' s)
                        else if strstr word ''$(dep''
                        then (case get_dependency word s of
                                Inl e \<Rightarrow> Inl e | Inr (w, s1) \<Rightarrow> Inr (Return w, s1))
                        else Inr (Return (Some word), s))
                  else (case is_define (tl word) s of
                          Inl e \<Rightarrow> Inl e
                        | Inr (True, s1) \<Rightarrow> Inr (Expand, s1)
                        | Inr (False, s1) \<Rightarrow> fatal (''Undefined symbol '' @ word) s1))
            else Inr (Return (Some word), s))
      else if \<not> quotes \<and> take 1 word = ''$''
      then fatal ''Expected symbol after escaped $ symbol'' s
      else Inr (Return (Some word), s))"

text \<open>
  \<open>get_word(buffer, from, newline_detected)\<close> with \<open>buffer == file_buffer\<close>, which is
  how \<open>check_syntax\<close> calls it. The result is the word (\<open>None\<close> for \<open>NULL\<close>) with the
  new \<open>from\<close> and \<open>newline_detected\<close>. After a define is expanded the function calls
  itself, with nothing in the C code bounding the number of expansions; \<open>fuel\<close> bounds
  it in the model. The bytes of the word are returned, and \<open>word_origin\<close> tells
  whether the pointer is into the dependency table.
\<close>

fun get_word :: "nat \<Rightarrow> nat \<Rightarrow> xmk \<Rightarrow> (string option \<times> nat \<times> bool) res" where
  "get_word 0 from s = Inl (OutOfFuel, s)"
| "get_word (Suc fuel) from s =
     (case file_buffer s of
        None \<Rightarrow> fatal ''Invalid given pointers'' s
      | Some b \<Rightarrow>
          (case skip_blanks b from False False (line s) of
             None \<Rightarrow> undefined_behaviour ''get_word: read after the buffer'' s
           | Some (End_of_buffer from1 nl ln) \<Rightarrow> Inr ((None, from1, nl), s\<lparr>line := ln\<rparr>)
           | Some (Found orig_from nl ln) \<Rightarrow>
               (let quotes = (buf_at b orig_from = Some (CHR 0x22)) in
                case scan_word b quotes (if quotes then Suc orig_from else orig_from) [] of
                  None \<Rightarrow> undefined_behaviour ''get_word: read after the buffer'' (s\<lparr>line := ln\<rparr>)
                | Some (from2, bytes, ch) \<Rightarrow>
                    (if 254 \<le> length bytes
                     then fatal ''maximum word length has been exceeded'' (s\<lparr>line := ln\<rparr>)
                     else
                       (let s1 = s\<lparr>line := (if ch = CHR 0x0A then Suc ln else ln),
                                   word_origin := None\<rparr>;
                            from3 = (if quotes then Suc from2 else from2)
                        in case form_word quotes (cstr bytes) s1 of
                             Inl e \<Rightarrow> Inl e
                           | Inr (Return w, s2) \<Rightarrow> Inr ((w, from3, nl), s2)
                           | Inr (Expand, s2) \<Rightarrow>
                               (case expand_define orig_from (cstr bytes) s2 of
                                  Inl e \<Rightarrow> Inl e
                                | Inr (False, s3) \<Rightarrow> fatal ''Invalid given pointers'' s3
                                | Inr (True, s3) \<Rightarrow> get_word fuel orig_from s3))))))"

section \<open>Model store: callbacks of the rules\<close>

definition update_slots :: "rule \<Rightarrow> (slots \<Rightarrow> slots) \<Rightarrow> xmk \<Rightarrow> xmk" where
  "update_slots r f s = s\<lparr>syntax_rules := (syntax_rules s)(r := f (syntax_rules s r))\<rparr>"

definition set_build_target :: "string \<Rightarrow> xmk \<Rightarrow> unit res" where
  "set_build_target target s =
     (case build_target s of
        None \<Rightarrow> Inr ((), s\<lparr>build_target := Some target\<rparr>)
      | Some _ \<Rightarrow> fatal ''Only one target can be defined'' s)"

text \<open>The search of \<open>add_target\<close> for an equal name; null cells are skipped.\<close>

fun repeated_scan :: "string ptr list \<Rightarrow> string \<Rightarrow> nat \<Rightarrow> nat \<Rightarrow> error + bool" where
  "repeated_scan names target i 0 = Inr False"
| "repeated_scan names target i (Suc k) =
     (case cell names i of
        Some (Ptr l_target) \<Rightarrow>
          (if l_target = target then Inr True else repeated_scan names target (Suc i) k)
      | Some Null \<Rightarrow> repeated_scan names target (Suc i) k
      | _ \<Rightarrow> Inl (Undefined ''add_target: invalid target name''))"

definition target_count :: "xmk \<Rightarrow> nat option" where
  "target_count s = size_at TARGET 0 s"

definition target_names :: "xmk \<Rightarrow> string ptr list option" where
  "target_names s =
     (case list (syntax_rules s TARGET) of
        Some (Ptr names # _) \<Rightarrow> Some names
      | _ \<Rightarrow> None)"

definition add_target :: "string \<Rightarrow> xmk \<Rightarrow> unit res" where
  "add_target target s =
     (let targets = syntax_rules s TARGET in
      case (if list targets \<noteq> None \<and> list_size targets \<noteq> None
            then (case (target_count s, target_names s) of
                    (Some n, Some names) \<Rightarrow> repeated_scan names target 0 n
                  | (Some 0, None) \<Rightarrow> Inr False
                  | _ \<Rightarrow> Inl (Undefined ''add_target: invalid target table''))
            else Inr False) of
        Inl e \<Rightarrow> Inl (e, s)
      | Inr True \<Rightarrow> fatal (''Target '' @ target @ '' has already been defined'') s
      | Inr False \<Rightarrow>
          (if list targets = None \<and> list_size targets = None
           then Inr ((), update_slots TARGET
                           (\<lambda>_. \<lparr>list = Some [Ptr [Ptr target]], list_size = Some [Some 1]\<rparr>) s)
           else (case (list targets, list_size targets) of
                   (Some (Ptr names # rest), Some sizes) \<Rightarrow>
                     (case cell sizes 0 of
                        Some (Some n) \<Rightarrow>
                          Inr ((), update_slots TARGET
                                     (\<lambda>_. \<lparr>list = Some (Ptr ((realloc_arr (Suc n) Wild names)
                                                             [n := Ptr target]) # rest),
                                          list_size = Some (sizes[0 := Some (Suc n)])\<rparr>) s)
                      | _ \<Rightarrow> undefined_behaviour ''add_target: size cell never written'' s)
                 | (Some (Null # rest), _) \<Rightarrow>
                     fatal ''An error happened when constructing target list'' s
                 | (Some (Ptr names # rest), None) \<Rightarrow>
                     undefined_behaviour ''add_target: no size cell'' s
                 | _ \<Rightarrow> undefined_behaviour ''add_target: invalid target table'' s)))"

text \<open>
  \<open>add_define\<close> alternates between storing a name at index \<open>defines.n\<close> and storing
  its value there; the count grows when the value is stored.
\<close>

definition add_define :: "string \<Rightarrow> xmk \<Rightarrow> unit res" where
  "add_define define s =
     (case def_state s of
        GET_NAME \<Rightarrow>
          Inr ((), s\<lparr>def_names := (realloc_arr (Suc (def_n s)) [] (def_names s))[def_n s := define],
                     def_state := GET_VALUE\<rparr>)
      | GET_VALUE \<Rightarrow>
          Inr ((), s\<lparr>def_values := (realloc_arr (Suc (def_n s)) [] (def_values s))[def_n s := define],
                     def_state := GET_NAME,
                     def_n := Suc (def_n s)\<rparr>))"

text \<open>
  \<open>create_basic_tree(dep_rule)\<close>: set \<open>current_scope\<close> to the newest target's name;
  when the rule has neither array, allocate both with one zeroed cell; when it has both,
  reallocate both to \<open>n_targets\<close> cells and clear the last one.
\<close>

definition create_basic_tree :: "rule \<Rightarrow> xmk \<Rightarrow> unit res" where
  "create_basic_tree dep_rule s =
     (case target_count s of
        None \<Rightarrow> undefined_behaviour ''create_basic_tree: no target count'' s
      | Some n_targets \<Rightarrow>
          (case (if n_targets = 0 then None
                 else (case target_names s of
                         None \<Rightarrow> None
                       | Some names \<Rightarrow> cell names (n_targets - 1))) of
             Some (Ptr target_name) \<Rightarrow>
               (let s1 = s\<lparr>current_scope := Some target_name\<rparr>;
                    r = syntax_rules s1 dep_rule
                in if list r = None \<and> list_size r = None
                   then Inr ((), update_slots dep_rule
                                   (\<lambda>_. \<lparr>list = Some [Null], list_size = Some [Some 0]\<rparr>) s1)
                   else (case (list r, list_size r) of
                           (Some arr, Some sizes) \<Rightarrow>
                             Inr ((), update_slots dep_rule
                                        (\<lambda>_. \<lparr>list = Some ((realloc_arr n_targets Wild arr)
                                                             [n_targets - 1 := Null]),
                                             list_size = Some ((realloc_arr n_targets None sizes)
                                                             [n_targets - 1 := Some 0])\<rparr>) s1)
                         | _ \<Rightarrow> Inr ((), s1)))
           | _ \<Rightarrow> undefined_behaviour ''create_basic_tree: invalid target name'' s))"

definition target_scope_block_opened :: "xmk \<Rightarrow> parse_state res" where
  "target_scope_block_opened s =
     (let s0 = (if list_size (syntax_rules s TARGET) = None
                then update_slots TARGET (\<lambda>r. r\<lparr>list_size := Some [Some 0]\<rparr>) s else s)
      in case create_basic_tree DEPENDS_ON s0 of
           Inl e \<Rightarrow> Inl e
         | Inr (_, s1) \<Rightarrow>
             (case create_basic_tree CREATED_USING s1 of
                Inl e \<Rightarrow> Inl e
              | Inr (_, s2) \<Rightarrow> Inr (CHECKING, s2)))"

definition created_using_scope_block_opened :: "xmk \<Rightarrow> parse_state res" where
  "created_using_scope_block_opened s = Inr (CHECKING, s)"

definition depends_on_scope_block_opened :: "xmk \<Rightarrow> parse_state res" where
  "depends_on_scope_block_opened s = Inr (CHECKING, s)"

section \<open>The table of syntax rules\<close>

text \<open>
  The constant fields of \<open>syntax_rules[]\<close>. The arrays are terminated by \<open>NULL\<close>
  (\<open>keywords\<close>, here \<open>rule_keywords\<close>, and \<open>recipe_list\<close>) or by \<open>END\<close> (each recipe); the terminating \<open>NULL\<close> is
  the index one past the list here, a larger index is outside the array.
  \<open>rule_order\<close> is the order of the array, that of \<open>enum rule\<close>.
\<close>

definition rule_order :: "rule list" where
  "rule_order = [DEFINE_AS, BUILD, DEPENDS_ON, CREATED_USING, TARGET]"

fun rule_keywords :: "rule \<Rightarrow> string list" where
  "rule_keywords BUILD = [''build'']"
| "rule_keywords TARGET = [''target'']"
| "rule_keywords DEFINE_AS = [''define'', ''as'']"
| "rule_keywords CREATED_USING = [''created'', ''using'']"
| "rule_keywords DEPENDS_ON = [''depends'', ''on'']"

fun recipe_list :: "rule \<Rightarrow> recipe list list" where
  "recipe_list BUILD = [[KEYWORD, SYMBOL, END]]"
| "recipe_list TARGET = [[KEYWORD, SYMBOL, NESTED_RULE, END]]"
| "recipe_list DEFINE_AS = [[KEYWORD, SYMBOL, KEYWORD, SYMBOL, END], [KEYWORD, LIST, KEYWORD, SYMBOL, END]]"
| "recipe_list CREATED_USING = [[KEYWORD, KEYWORD, LIST, END]]"
| "recipe_list DEPENDS_ON = [[KEYWORD, KEYWORD, LIST, END]]"

fun symbol_callback :: "rule \<Rightarrow> (string \<Rightarrow> xmk \<Rightarrow> unit res) option" where
  "symbol_callback BUILD = Some set_build_target"
| "symbol_callback TARGET = Some add_target"
| "symbol_callback DEFINE_AS = Some add_define"
| "symbol_callback CREATED_USING = None"
| "symbol_callback DEPENDS_ON = None"

fun scope_block_opened :: "rule \<Rightarrow> (xmk \<Rightarrow> parse_state res) option" where
  "scope_block_opened BUILD = None"
| "scope_block_opened TARGET = Some target_scope_block_opened"
| "scope_block_opened DEFINE_AS = None"
| "scope_block_opened CREATED_USING = Some created_using_scope_block_opened"
| "scope_block_opened DEPENDS_ON = Some depends_on_scope_block_opened"

section \<open>Rule engine\<close>

text \<open>
  \<open>check_rule\<close> keeps \<open>step_i\<close>, \<open>keyword_i\<close>, \<open>recipe_i\<close> (arrays of
  \<open>MAX_RECURSION = 2\<close> cells) and \<open>recursion_level\<close> in static storage shared by all
  rules. \<open>reg\<close> and \<open>set_reg\<close> read and write a cell of such an array.
\<close>

definition reg :: "nat \<times> nat \<Rightarrow> nat \<Rightarrow> nat" where
  "reg a i = (if i = 0 then fst a else snd a)"

definition set_reg :: "nat \<times> nat \<Rightarrow> nat \<Rightarrow> nat \<Rightarrow> nat \<times> nat" where
  "set_reg a i v = (if i = 0 then (v, snd a) else (fst a, v))"

definition reset_level :: "xmk \<Rightarrow> xmk" where
  "reset_level s =
     s\<lparr>step_i := set_reg (step_i s) (recursion_level s) 0,
       keyword_i := set_reg (keyword_i s) (recursion_level s) 0,
       recipe_i := set_reg (recipe_i s) (recursion_level s) 0\<rparr>"

definition pop_level :: "xmk \<Rightarrow> xmk" where
  "pop_level s = s\<lparr>recursion_level := recursion_level s - 1\<rparr>"

text \<open>
  The keyword test of \<open>check_rule\<close>:
  \<open>!strncmp(word, keyword, len) && len == strlen(word)\<close> with \<open>len = strlen(keyword)\<close>.
  The older \<open>XMK.C\<close> has only \<open>!strncmp(word, keyword, strlen(keyword))\<close>.
\<close>

definition strncmp_equal :: "string \<Rightarrow> string \<Rightarrow> nat \<Rightarrow> bool" where
  "strncmp_equal a b n = (take n a = take n b)"

definition keyword_matches :: "string \<Rightarrow> string \<Rightarrow> bool" where
  "keyword_matches word keyword =
     (strncmp_equal word keyword (length keyword) \<and> length keyword = length word)"

definition keyword_matches_XMK_C :: "string \<Rightarrow> string \<Rightarrow> bool" where
  "keyword_matches_XMK_C word keyword = strncmp_equal word keyword (length keyword)"

text \<open>
  After a keyword or a symbol, with \<open>step_i\<close> already advanced: when the next step is
  \<open>END\<close> the rule is complete (registers cleared, one level popped, \<open>SEARCHING\<close>),
  otherwise \<open>CHECKING\<close>. The call returns \<open>true\<close>.
\<close>

definition step_done :: "recipe list \<Rightarrow> xmk \<Rightarrow> (bool \<times> parse_state) res" where
  "step_done recipe s =
     (case cell recipe (reg (step_i s) (recursion_level s)) of
        None \<Rightarrow> undefined_behaviour ''check_rule: read after the recipe'' s
      | Some next_step \<Rightarrow>
          (if next_step = END then Inr ((True, SEARCHING), pop_level (reset_level s))
           else Inr ((True, CHECKING), s)))"

definition add_symbol :: "rule \<Rightarrow> string \<Rightarrow> xmk \<Rightarrow> unit res" where
  "add_symbol r word s =
     (case symbol_callback r of
        Some callback \<Rightarrow> callback word s
      | None \<Rightarrow> Inr ((), s))"

text \<open>\<open>scope\<close>: the result is the returned flag and the value left in \<open>*state\<close>.\<close>

definition scope :: "rule \<Rightarrow> string \<Rightarrow> parse_state \<Rightarrow> xmk \<Rightarrow> (bool \<times> parse_state) res" where
  "scope r word state s =
     (if word = ''{''
      then (case scope_block_opened r of
              Some callback \<Rightarrow>
                (case callback s of
                   Inl e \<Rightarrow> Inl e
                 | Inr (state', s1) \<Rightarrow> Inr ((True, state'), s1))
            | None \<Rightarrow> fatal (''Keyword '' @ hd (rule_keywords r) @ '' does not accept {'') s)
      else if word = ''}'' then Inr ((True, SEARCHING), s)
      else Inr ((False, state), s))"

text \<open>
  \<open>handle_list\<close>. \<open>current_target\<close> is \<open>*syntax_rules[TARGET].list_size - 1\<close>,
  computed in \<open>size_t\<close>: with no target it is \<open>SIZE_MAX\<close>, outside every array.
  The four cases store the word for the current target: a first array for the rule, a
  first string for the target, a new string after a newline, or the word appended to the
  last string after one space. The first three copy the word into new memory. The last
  reallocates the last string and calls \<open>strcat\<close> on it with the word as source: when
  the word is that very string (\<open>$(dep[N])\<close> naming the last dependency, inside
  \<open>depends on\<close>), the source is the block just reallocated, and the destination of the
  copy.
\<close>

definition store_in_list :: "rule \<Rightarrow> string \<Rightarrow> bool \<Rightarrow> nat \<Rightarrow> xmk \<Rightarrow> bool res" where
  "store_in_list r word newline_detected current_target s =
     (case list (syntax_rules s r) of
        None \<Rightarrow>
          (case list_size (syntax_rules s r) of
             None \<Rightarrow> fatal ''Some error has been detected''
                       (update_slots r (\<lambda>x. x\<lparr>list := Some [Wild]\<rparr>) s)
           | Some sizes \<Rightarrow>
               (case cell sizes current_target of
                  Some (Some n) \<Rightarrow>
                    Inr (True, update_slots r
                                 (\<lambda>x. \<lparr>list = Some [Ptr [Ptr word]],
                                      list_size = Some (sizes[current_target := Some (Suc n)])\<rparr>) s)
                | _ \<Rightarrow> undefined_behaviour ''handle_list: invalid size cell'' s))
      | Some arr \<Rightarrow>
          (case cell arr current_target of
             Some Null \<Rightarrow>
               (case size_at r current_target s of
                  Some n \<Rightarrow>
                    Inr (True, update_slots r
                                 (\<lambda>x. \<lparr>list = Some (arr[current_target := Ptr [Ptr word]]),
                                      list_size = map_option (\<lambda>sizes. sizes[current_target := Some (Suc n)])
                                                    (list_size x)\<rparr>) s)
                | None \<Rightarrow> undefined_behaviour ''handle_list: invalid size cell'' s)
           | Some (Ptr strs) \<Rightarrow>
               (case size_at r current_target s of
                  None \<Rightarrow>
                    (if \<not> newline_detected \<and> list_size (syntax_rules s r) = None
                     then fatal ''Some error has been detected'' s
                     else undefined_behaviour ''handle_list: invalid size cell'' s)
                | Some n \<Rightarrow>
                    (if newline_detected
                     then Inr (True, update_slots r
                                 (\<lambda>x. \<lparr>list = Some (arr[current_target :=
                                                Ptr ((realloc_arr (Suc n) Wild strs)[n := Ptr word])]),
                                      list_size = map_option (\<lambda>sizes. sizes[current_target := Some (Suc n)])
                                                    (list_size x)\<rparr>) s)
                     else (case (if n = 0 then None else cell strs (n - 1)) of
                             Some Null \<Rightarrow>
                               Inr (True, update_slots r
                                     (\<lambda>x. \<lparr>list = Some (arr[current_target := Ptr (strs[n - 1 := Ptr word])]),
                                          list_size = map_option (\<lambda>sizes. sizes[current_target := Some (Suc n)])
                                                        (list_size x)\<rparr>) s)
                           | Some (Ptr str) \<Rightarrow>
                               (if r = DEPENDS_ON \<and> word_origin s = Some (current_target, n - 1)
                                then undefined_behaviour
                                       ''handle_list: strcat from the string being reallocated'' s
                                else Inr (True, update_slots r
                                     (\<lambda>x. x\<lparr>list := Some (arr[current_target :=
                                                Ptr (strs[n - 1 := Ptr (str @ '' '' @ word)])])\<rparr>) s))
                           | _ \<Rightarrow> undefined_behaviour ''handle_list: invalid last string'' s)))
           | _ \<Rightarrow> undefined_behaviour ''handle_list: invalid list cell'' s))"

definition handle_list ::
  "rule \<Rightarrow> string \<Rightarrow> parse_state \<Rightarrow> bool \<Rightarrow> xmk \<Rightarrow> (bool \<times> parse_state) res" where
  "handle_list r word state newline_detected s =
     (case target_count s of
        None \<Rightarrow> undefined_behaviour ''handle_list: no target count'' s
      | Some n_targets \<Rightarrow>
          (case scope r word state s of
             Inl e \<Rightarrow> Inl e
           | Inr ((True, state'), s1) \<Rightarrow> Inr ((True, state'), s1)
           | Inr ((False, state'), s1) \<Rightarrow>
               (if n_targets = 0
                then (if list (syntax_rules s1 r) = None \<and> list_size (syntax_rules s1 r) = None
                      then fatal ''Some error has been detected'' s1
                      else undefined_behaviour ''handle_list: current_target is SIZE_MAX'' s1)
                else (case store_in_list r word newline_detected (n_targets - 1) s1 of
                        Inl e \<Rightarrow> Inl e
                      | Inr (b, s2) \<Rightarrow> Inr ((b, state'), s2)))))"

text \<open>
  \<open>check_rule(rule, word, state, newline_detected)\<close>: the result is the returned flag
  and the value left in \<open>*state\<close>. With \<open>recursion_level\<close> at 2 the first statement
  reads \<open>recipe_i[2]\<close>, outside the array. On a keyword mismatch the function advances
  \<open>recipe_i\<close> and calls itself; the recursion ends at the \<open>NULL\<close> that closes
  \<open>recipe_list\<close>.
\<close>

function check_rule :: "rule \<Rightarrow> string \<Rightarrow> parse_state \<Rightarrow> bool \<Rightarrow> xmk \<Rightarrow> (bool \<times> parse_state) res" where
  "check_rule r word state newline_detected s =
     (if 2 \<le> recursion_level s
      then undefined_behaviour ''check_rule: recursion_level outside the registers'' s
      else if length (recipe_list r) < reg (recipe_i s) (recursion_level s)
      then undefined_behaviour ''check_rule: read after recipe_list'' s
      else if reg (recipe_i s) (recursion_level s) = length (recipe_list r)
      then Inr ((False, SEARCHING), reset_level s)
      else
        (case cell (recipe_list r ! reg (recipe_i s) (recursion_level s))
                (reg (step_i s) (recursion_level s)) of
           None \<Rightarrow> undefined_behaviour ''check_rule: read after the recipe'' s
         | Some KEYWORD \<Rightarrow>
             (if length (rule_keywords r) < reg (keyword_i s) (recursion_level s)
              then undefined_behaviour ''check_rule: read after keywords'' s
              else if reg (keyword_i s) (recursion_level s) = length (rule_keywords r)
              then Inr ((False, SEARCHING), reset_level s)
              else if keyword_matches word (rule_keywords r ! reg (keyword_i s) (recursion_level s))
              then step_done (recipe_list r ! reg (recipe_i s) (recursion_level s))
                     (s\<lparr>step_i := set_reg (step_i s) (recursion_level s)
                                     (Suc (reg (step_i s) (recursion_level s))),
                        keyword_i := set_reg (keyword_i s) (recursion_level s)
                                     (Suc (reg (keyword_i s) (recursion_level s)))\<rparr>)
              else if word = ''}''
              then Inr ((False, SEARCHING), reset_level (pop_level s))
              else check_rule r word state newline_detected
                     (s\<lparr>recipe_i := set_reg (recipe_i s) (recursion_level s)
                                      (Suc (reg (recipe_i s) (recursion_level s)))\<rparr>))
         | Some NESTED_RULE \<Rightarrow>
             (case scope r word state (s\<lparr>recursion_level := Suc (recursion_level s)\<rparr>) of
                Inl e \<Rightarrow> Inl e
              | Inr (_, s1) \<Rightarrow> Inr ((True, SEARCHING), s1))
         | Some SYMBOL \<Rightarrow>
             (case add_symbol r word s of
                Inl e \<Rightarrow> Inl e
              | Inr (_, s1) \<Rightarrow>
                  step_done (recipe_list r ! reg (recipe_i s) (recursion_level s))
                    (s1\<lparr>step_i := set_reg (step_i s1) (recursion_level s1)
                                      (Suc (reg (step_i s1) (recursion_level s1)))\<rparr>))
         | Some LIST \<Rightarrow>
             (case handle_list r word state newline_detected s of
                Inl e \<Rightarrow> Inl e
              | Inr ((True, state'), s1) \<Rightarrow> Inr ((True, state'), s1)
              | Inr ((False, state'), s1) \<Rightarrow> Inr ((False, SEARCHING), reset_level s1))
         | Some END \<Rightarrow> Inr ((True, SEARCHING), pop_level (reset_level s))))"
  by pat_completeness auto
termination
  by (relation "measure (\<lambda>(r, word, state, newline_detected, s).
                   Suc (length (recipe_list r)) - reg (recipe_i s) (recursion_level s))")
     (auto simp: reg_def set_reg_def)

declare check_rule.simps [simp del]

text \<open>
  The \<open>SEARCHING\<close> case of \<open>check_syntax\<close>: the rules are tried in table order and the
  first for which \<open>check_rule\<close> returns \<open>true\<close> becomes \<open>rule_checking\<close>. The result is
  that rule, if any, and the value left in \<open>state\<close>.
\<close>

fun try_rules :: "rule list \<Rightarrow> string \<Rightarrow> parse_state \<Rightarrow> bool \<Rightarrow> xmk \<Rightarrow> (rule option \<times> parse_state) res" where
  "try_rules [] word state newline_detected s = Inr ((None, state), s)"
| "try_rules (r # rs) word state newline_detected s =
     (case check_rule r word state newline_detected s of
        Inl e \<Rightarrow> Inl e
      | Inr ((True, state'), s1) \<Rightarrow> Inr ((Some r, state'), s1)
      | Inr ((False, state'), s1) \<Rightarrow> try_rules rs word state' newline_detected s1)"

text \<open>
  The body of the \<open>while\<close> loop of \<open>check_syntax\<close> for one word. \<open>rule_checking\<close> is
  not initialised before the first rule claims a word.
\<close>

definition check_word ::
  "string \<Rightarrow> bool \<Rightarrow> parse_state \<Rightarrow> rule option \<Rightarrow> xmk \<Rightarrow> (parse_state \<times> rule option) res" where
  "check_word word newline_detected state rule_checking s =
     (case state of
        SEARCHING \<Rightarrow>
          (case try_rules rule_order word state newline_detected s of
             Inl e \<Rightarrow> Inl e
           | Inr ((Some r, state'), s1) \<Rightarrow> Inr ((state', Some r), s1)
           | Inr ((None, state'), s1) \<Rightarrow> Inr ((state', rule_checking), s1))
      | CHECKING \<Rightarrow>
          (case rule_checking of
             None \<Rightarrow> undefined_behaviour ''check_syntax: rule_checking not initialised'' s
           | Some r \<Rightarrow>
               (case check_rule r word state newline_detected s of
                  Inl e \<Rightarrow> Inl e
                | Inr ((_, state'), s1) \<Rightarrow> Inr ((state', rule_checking), s1))))"

text \<open>
  \<open>check_syntax\<close>: words are taken until \<open>get_word\<close> returns \<open>NULL\<close>, then the
  function returns 0. \<open>fuel\<close> bounds the number of words and, for each word, the number
  of define expansions.
\<close>

fun check_syntax_loop :: "nat \<Rightarrow> nat \<Rightarrow> parse_state \<Rightarrow> rule option \<Rightarrow> xmk \<Rightarrow> int res" where
  "check_syntax_loop 0 from state rule_checking s = Inl (OutOfFuel, s)"
| "check_syntax_loop (Suc fuel) from state rule_checking s =
     (case get_word (Suc fuel) from s of
        Inl e \<Rightarrow> Inl e
      | Inr ((None, _, _), s1) \<Rightarrow> Inr (0, s1)
      | Inr ((Some word, from', newline_detected), s1) \<Rightarrow>
          (case check_word word newline_detected state rule_checking s1 of
             Inl e \<Rightarrow> Inl e
           | Inr ((state', rule_checking'), s2) \<Rightarrow>
               check_syntax_loop fuel from' state' rule_checking' s2))"

definition check_syntax :: "nat \<Rightarrow> xmk \<Rightarrow> int res" where
  "check_syntax fuel s = check_syntax_loop fuel 0 SEARCHING None s"

section \<open>Program\<close>

text \<open>
  \<open>parse_file\<close>: check the syntax; with \<open>-E\<close> print the buffer and return 0; otherwise
  free the buffer and run the executor on the build target, or stop when there is none.
\<close>

definition parse_file :: "nat \<Rightarrow> host \<Rightarrow> xmk \<Rightarrow> int res" where
  "parse_file fuel h s =
     (case check_syntax fuel s of
        Inl e \<Rightarrow> Inl e
      | Inr (result, s1) \<Rightarrow>
          (if preprocess (cfg s1)
           then (case file_buffer s1 of
                   None \<Rightarrow> undefined_behaviour ''parse_file: no buffer'' s1
                 | Some b \<Rightarrow> Inr (0, printf (cstr b) s1))
           else
             (let s2 = s1\<lparr>file_buffer := None\<rparr> in
              if result = 0
              then (case build_target s2 of
                      Some target \<Rightarrow>
                        (case execute_commands fuel h target False s2 of
                           Inl e \<Rightarrow> Inl e
                         | Inr ((code, _), s3) \<Rightarrow> Inr (code, s3))
                    | None \<Rightarrow> fatal ''No build target has not been defined. Please add build TARGET_NAME'' s2)
              else Inr (1, s2))))"

text \<open>
  The globals at program start: static storage is zero. \<open>exec\<close> reads the whole input
  file into the buffer, sets \<open>line\<close> to 1 and parses; \<open>contents\<close> is what reading the
  file at the configured path gives, \<open>None\<close> when it cannot be opened.
\<close>

definition initial :: "config \<Rightarrow> filesys \<Rightarrow> xmk" where
  "initial c d =
     \<lparr>cfg = c, build_target = None, current_scope = None, file_buffer = None, line = 0,
      def_names = [], def_values = [], def_n = 0, def_selected_i = 0, def_state = GET_NAME,
      syntax_rules = (\<lambda>_. \<lparr>list = None, list_size = None\<rparr>),
      step_i = (0, 0), keyword_i = (0, 0), recipe_i = (0, 0), recursion_level = 0,
      word_origin = None, disk = d, out = []\<rparr>"

definition exec :: "nat \<Rightarrow> host \<Rightarrow> char list option \<Rightarrow> xmk \<Rightarrow> int res" where
  "exec fuel h contents s =
     (case contents of
        None \<Rightarrow> fatal ''Input file could not be opened'' s
      | Some bytes \<Rightarrow> parse_file fuel h (s\<lparr>file_buffer := Some bytes, line := 1\<rparr>))"

text \<open>
  The exit code of the process: the value \<open>main\<close> returns, or 1 after \<open>FATAL_ERROR\<close>
  (\<open>fatal_error\<close> ends with \<open>exit(1)\<close>). Nothing is known after undefined behaviour.
\<close>

definition exit_code :: "int res \<Rightarrow> int option" where
  "exit_code r =
     (case r of
        Inr (code, _) \<Rightarrow> Some code
      | Inl (Fatal _, _) \<Rightarrow> Some 1
      | Inl _ \<Rightarrow> None)"

definition xmk_main :: "nat \<Rightarrow> host \<Rightarrow> config \<Rightarrow> filesys \<Rightarrow> char list option \<Rightarrow> int res" where
  "xmk_main fuel h c d contents = exec fuel h contents (initial c d)"

section \<open>Observations and example inputs\<close>

text \<open>The command lines handed to the host so far, in order.\<close>

definition spawned :: "xmk \<Rightarrow> string list" where
  "spawned s = concat (map (\<lambda>e. case e of Spawn c \<Rightarrow> [c] | Stdout _ \<Rightarrow> []) (out s))"

definition no_options :: config where
  "no_options = \<lparr>path = None, preprocess = False, verbose = False, extra_verbose = False, quiet = False\<rparr>"

definition at_time :: "nat \<Rightarrow> FILETIME option option" where
  "at_time n = Some (Some \<lparr>dwLowDateTime = of_nat n, dwHighDateTime = 0\<rparr>)"

definition no_files :: filesys where
  "no_files = (\<lambda>_. None)"

text \<open>
  An example host primitive: every command succeeds and leaves, with write time \<open>n\<close>,
  the file named by the last word of its command line.
\<close>

definition touch_last :: "nat \<Rightarrow> string \<Rightarrow> filesys \<Rightarrow> int \<times> filesys" where
  "touch_last n command d =
     (0, d(rev (takeWhile (\<lambda>c. c \<noteq> CHR '' '') (rev command)) := at_time n))"

definition LF :: char where
  "LF = CHR 0x0A"

text \<open>The result without the globals, and the globals a call ended with.\<close>

definition outcome :: "'a res \<Rightarrow> error + 'a" where
  "outcome r = (case r of Inl (e, _) \<Rightarrow> Inl e | Inr (x, _) \<Rightarrow> Inr x)"

definition final :: "'a res \<Rightarrow> xmk" where
  "final r = (case r of Inl (_, s) \<Rightarrow> s | Inr (_, s) \<Rightarrow> s)"

text \<open>The globals once \<open>exec\<close> has read \<open>text\<close> into the buffer.\<close>

definition loaded :: "config \<Rightarrow> filesys \<Rightarrow> string \<Rightarrow> xmk" where
  "loaded c d text = (initial c d)\<lparr>file_buffer := Some text, line := 1\<rparr>"

definition posix_host :: host where
  "posix_host = \<lparr>platform = POSIX, run = touch_last 9\<rparr>"

definition win32_host :: host where
  "win32_host = \<lparr>platform = WIN32, run = touch_last 9\<rparr>"

text \<open>The minimal build: one target, one dependency, one command.\<close>

definition minimal_build :: string where
  "minimal_build = ''build out'' @ [LF]
     @ ''target out { depends on { in } created using { cp in out } }'' @ [LF]"

text \<open>Both files present, the target written after its dependency.\<close>

definition up_to_date :: filesys where
  "up_to_date = no_files(''in'' := at_time 5, ''out'' := at_time 7)"

text \<open>A target with two dependencies whose command names the second one.\<close>

definition two_dependencies :: string where
  "two_dependencies = ''target app {'' @ [LF] @ ''depends on {'' @ [LF] @ ''a.o'' @ [LF]
     @ ''b.o'' @ [LF] @ ''}'' @ [LF] @ ''created using {'' @ [LF] @ ''ld $(dep[1])'' @ [LF]
     @ ''}'' @ [LF] @ ''}'' @ [LF]"

text \<open>
  A dependency list whose first line names \<open>$(dep[0])\<close> after the dependency itself,
  and one that names it on the next line.
\<close>

definition self_append :: string where
  "self_append = ''target app {'' @ [LF] @ ''depends on {'' @ [LF] @ ''a.o $(dep[0])'' @ [LF]
     @ ''}'' @ [LF] @ ''}'' @ [LF]"

definition other_append :: string where
  "other_append = ''target app {'' @ [LF] @ ''depends on {'' @ [LF] @ ''a.o'' @ [LF]
     @ ''b.o $(dep[0])'' @ [LF] @ ''}'' @ [LF] @ ''}'' @ [LF]"

text \<open>The globals inside the block of target \<open>app\<close>, its two dependencies stored.\<close>

definition app_scope :: xmk where
  "app_scope = (initial no_options no_files)
     \<lparr>current_scope := Some ''app'',
      syntax_rules := (\<lambda>_. \<lparr>list = None, list_size = None\<rparr>)
        (TARGET := \<lparr>list = Some [Ptr [Ptr ''app'']], list_size = Some [Some 1]\<rparr>,
         DEPENDS_ON := \<lparr>list = Some [Ptr [Ptr ''a.o'', Ptr ''b.o'']], list_size = Some [Some 2]\<rparr>,
         CREATED_USING := \<lparr>list = Some [Null], list_size = Some [Some 0]\<rparr>)\<rparr>"

text \<open>The same with a file \<open>in\<close>, which is not a declared target.\<close>

definition app_with_file :: xmk where
  "app_with_file = app_scope\<lparr>disk := no_files(''in'' := at_time 5)\<rparr>"

text \<open>A buffer holding one word of \<open>n\<close> bytes and a newline.\<close>

definition long_word :: "nat \<Rightarrow> string" where
  "long_word n = replicate n (CHR ''a'') @ [LF]"

text \<open>A byte at which the first loop of \<open>get_word\<close> stops outside a comment.\<close>

definition starts_word :: "char \<Rightarrow> bool" where
  "starts_word c = (c \<noteq> CHR ''#'' \<and> c \<noteq> NUL \<and> c \<noteq> CHR 0x0A \<and> c \<noteq> CHR 0x0D
                    \<and> c \<noteq> CHR 0x09 \<and> c \<noteq> CHR '' '')"

text \<open>Two targets, \<open>t\<close> and \<open>a\<close>, that both depend on the target \<open>s\<close>.\<close>

definition shared_dependency :: string where
  "shared_dependency = ''build t'' @ [LF]
     @ ''target t { depends on {'' @ [LF] @ ''a'' @ [LF] @ ''s'' @ [LF]
     @ ''} created using { mk t } }'' @ [LF]
     @ ''target a { depends on { s } created using { mk a } }'' @ [LF]
     @ ''target s { depends on { s.c } created using { mk s } }'' @ [LF]"

text \<open>The minimal build with two defines used in its command.\<close>

definition define_expansion :: string where
  "define_expansion = ''define CC as cc'' @ [LF] @ ''define FLAGS as -O2'' @ [LF]
     @ ''build foo'' @ [LF]
     @ ''target foo { depends on { foo.c } created using { $CC $FLAGS -o foo foo.c } }'' @ [LF]"

definition only_preprocess :: config where
  "only_preprocess = no_options\<lparr>preprocess := True\<rparr>"

text \<open>A word that no rule starts with, before a \<open>build\<close> directive.\<close>

definition stray_word :: string where
  "stray_word = ''foo'' @ [LF] @ ''build out'' @ [LF]"

text \<open>
  What the parser leaves alone: the options, the files and the spawned commands
  (\<open>same_world\<close>); for the rule engine and its callbacks also the buffer (\<open>vis\<close>).
  \<open>store\<close> is everything but the registers of \<open>check_rule\<close>, the line counter and
  the selected define.
\<close>

definition same_world :: "xmk \<Rightarrow> xmk \<Rightarrow> bool" where
  "same_world s s' = (cfg s' = cfg s \<and> disk s' = disk s \<and> spawned s' = spawned s)"

definition vis :: "xmk \<Rightarrow> config \<times> filesys \<times> string list \<times> char list option" where
  "vis s = (cfg s, disk s, spawned s, file_buffer s)"

definition store ::
  "xmk \<Rightarrow> (rule \<Rightarrow> slots) \<times> string option \<times> string option \<times> string list \<times> string list
          \<times> nat \<times> define_state \<times> event list \<times> char list option \<times> config \<times> filesys" where
  "store s = (syntax_rules s, build_target s, current_scope s, def_names s, def_values s,
              def_n s, def_state s, out s, file_buffer s, cfg s, disk s)"

text \<open>
  The registers of the current nesting level are clear: every rule is at the first
  step of its first recipe. \<open>first_keywords\<close> are the keywords expected there.
\<close>

definition fresh_level :: "xmk \<Rightarrow> bool" where
  "fresh_level s = (recursion_level s < 2
     \<and> reg (step_i s) (recursion_level s) = 0
     \<and> reg (keyword_i s) (recursion_level s) = 0
     \<and> reg (recipe_i s) (recursion_level s) = 0)"

definition first_keywords :: "string list" where
  "first_keywords = map (\<lambda>r. hd (rule_keywords r)) rule_order"

text \<open>
  A rule read at the registers of the current level: it is at a keyword step when the
  step of its current recipe there is \<open>KEYWORD\<close> and \<open>keyword_i\<close> is inside its
  \<open>keywords\<close> array or at the closing \<open>NULL\<close>; the keyword it awaits is the one at
  \<open>keyword_i\<close>, none at the closing \<open>NULL\<close>.
\<close>

definition at_keyword_step :: "rule \<Rightarrow> xmk \<Rightarrow> bool" where
  "at_keyword_step r s =
     (recursion_level s < 2
      \<and> reg (recipe_i s) (recursion_level s) < length (recipe_list r)
      \<and> cell (recipe_list r ! reg (recipe_i s) (recursion_level s))
              (reg (step_i s) (recursion_level s)) = Some KEYWORD
      \<and> reg (keyword_i s) (recursion_level s) \<le> length (rule_keywords r))"

definition awaited :: "rule \<Rightarrow> xmk \<Rightarrow> string option" where
  "awaited r s =
     (if reg (keyword_i s) (recursion_level s) < length (rule_keywords r)
      then Some (rule_keywords r ! reg (keyword_i s) (recursion_level s)) else None)"

text \<open>
  The body of the loop of \<open>check_syntax\<close> applied in turn to words already tokenized,
  each with its \<open>newline_detected\<close> flag.
\<close>

fun check_words ::
  "(string \<times> bool) list \<Rightarrow> parse_state \<Rightarrow> rule option \<Rightarrow> xmk \<Rightarrow> (parse_state \<times> rule option) res" where
  "check_words [] state rule_checking s = Inr ((state, rule_checking), s)"
| "check_words ((word, newline_detected) # rest) state rule_checking s =
     (case check_word word newline_detected state rule_checking s of
        Inl e \<Rightarrow> Inl e
      | Inr ((state', rule_checking'), s1) \<Rightarrow> check_words rest state' rule_checking' s1)"

text \<open>
  A \<open>build\<close> directive inside a target block, followed by the words \<open>as y\<close>. A
  target block with one closed dependency list, and the globals after its words with
  the buffer going on with \<open>stray_word\<close>.
\<close>

definition build_in_block :: string where
  "build_in_block = ''target t {'' @ [LF] @ ''build x'' @ [LF] @ ''as y'' @ [LF]"

definition list_closed :: string where
  "list_closed = ''target t {'' @ [LF] @ ''depends on { a.o }'' @ [LF]"

definition after_list :: xmk where
  "after_list = (final (check_syntax 20 (loaded no_options no_files list_closed)))
                  \<lparr>file_buffer := Some (list_closed @ stray_word)\<rparr>"

text \<open>
  The number of entries of a rule's table: the common length of its \<open>list\<close> and
  \<open>list_size\<close> arrays. The tables are in step when the dependency table and the
  command table each have as many entries as there are targets. A rule is ready for
  \<open>create_basic_tree\<close> when it has both arrays, or neither and one target exists.
\<close>

definition table_len :: "rule \<Rightarrow> xmk \<Rightarrow> nat option" where
  "table_len r s =
     (case (list (syntax_rules s r), list_size (syntax_rules s r)) of
        (Some arr, Some sizes) \<Rightarrow> if length arr = length sizes then Some (length arr) else None
      | _ \<Rightarrow> None)"

definition tables_in_step :: "xmk \<Rightarrow> bool" where
  "tables_in_step s =
     (target_count s \<noteq> None \<and> table_len DEPENDS_ON s = target_count s
      \<and> table_len CREATED_USING s = target_count s)"

definition ready :: "rule \<Rightarrow> xmk \<Rightarrow> bool" where
  "ready r s =
     ((list (syntax_rules s r) \<noteq> None \<and> list_size (syntax_rules s r) \<noteq> None)
      \<or> (list (syntax_rules s r) = None \<and> list_size (syntax_rules s r) = None
          \<and> target_count s = Some 1))"

text \<open>
  A target with an empty block followed by a target header with no block; the globals
  after the words \<open>target a\<close>; the globals after the words \<open>target a {\<close>.
\<close>

definition two_headers :: string where
  "two_headers = ''target a { }'' @ [LF] @ ''target b'' @ [LF]"

definition header_only :: xmk where
  "header_only = final (check_syntax 5 (loaded no_options no_files (''target a'' @ [LF])))"

definition block_entered :: xmk where
  "block_entered = final (check_syntax 5 (loaded no_options no_files (''target a {'' @ [LF])))"

text \<open>
  A target whose first dependency is a plain file and whose second is another target; the
  file \<open>in\<close> is newer than \<open>out\<close>, and \<open>lib\<close> is up to date and older than
  \<open>out\<close>. A host whose commands leave their file with write time 1.
\<close>

definition file_and_target :: string where
  "file_and_target = ''build out'' @ [LF]
     @ ''target out { depends on {'' @ [LF] @ ''in'' @ [LF] @ ''lib'' @ [LF]
     @ ''} created using { cp in out } }'' @ [LF]
     @ ''target lib { depends on { lib.c } created using { mk lib } }'' @ [LF]"

definition newer_input :: filesys where
  "newer_input = no_files(''in'' := at_time 9, ''out'' := at_time 7, ''lib'' := at_time 3,
                          ''lib.c'' := at_time 1)"

definition stale_host :: host where
  "stale_host = \<lparr>platform = WIN32, run = touch_last 1\<rparr>"

section \<open>Executor: names that are files\<close>

text \<open>\<open>execute_commands\<close> in terms of \<open>ex_build_target\<close>, as the C code has it.\<close>

lemma execute_commands_unfold:
  "execute_commands (Suc fuel) h target has_parent s =
     (case target_exists (Some target) s of
        Inl e \<Rightarrow> Inl e
      | Inr (Some target_idx, s1) \<Rightarrow> ex_build_target fuel h target target_idx has_parent s1
      | Inr (None, s1) \<Rightarrow>
          (if \<not> file_exists target s1
           then fatal (''Target '' @ target @ '' could not be found on target list'') s1
           else Inr ((0, None), s1)))"
  by (simp add: ex_build_target_def split: sum.splits prod.splits option.splits)

lemma target_exists_frame:
  "target_exists t s = Inr (r, s1) \<Longrightarrow>
     s1 = s \<or> s1 = printf (''No targets have been defined.'' @ CRLF) s"
  by (auto simp: target_exists_def undefined_behaviour_def
           split: option.splits list.splits ptr.splits sum.splits if_splits prod.splits)

lemma spawned_printf [simp]: "spawned (printf str s) = spawned s"
  by (simp add: spawned_def printf_def)

lemma disk_printf [simp]: "disk (printf str s) = disk s"
  by (simp add: printf_def)

lemma file_exists_printf [simp]: "file_exists f (printf str s) = file_exists f s"
  by (simp add: file_exists_def)

text \<open>
  Claim C10. When the name given to \<open>execute_commands\<close> is not found in the target
  table (\<open>target_exists\<close> answers \<open>false\<close>) and a file of that name exists, the call
  returns 0, whether or not a parent flag is passed (the top-level call passes none);
  no command is handed to the host, the files are untouched, and nothing is written
  through the parent flag.
\<close>

theorem existing_file_is_accepted:
  assumes "target_exists (Some target) s = Inr (None, s1)"
    and "file_exists target s"
  shows "execute_commands (Suc fuel) h target has_parent s = Inr ((0, None), s1)
         \<and> spawned s1 = spawned s \<and> disk s1 = disk s"
proof -
  from target_exists_frame [OF assms(1)]
  have fr: "s1 = s \<or> s1 = printf (''No targets have been defined.'' @ CRLF) s" .
  then have ex: "file_exists target s1" using assms(2) by auto
  have "execute_commands (Suc fuel) h target has_parent s = Inr ((0, None), s1)"
    using assms(1) ex by simp
  moreover have "spawned s1 = spawned s" using fr by auto
  moreover have "disk s1 = disk s" using fr by auto
  ultimately show ?thesis by simp
qed

theorem existing_file_is_accepted_witness:
  "target_exists (Some ''in'') app_with_file = Inr (None, app_with_file)
   \<and> file_exists ''in'' app_with_file
   \<and> execute_commands (Suc 0) posix_host ''in'' False app_with_file
       = Inr ((0, None), app_with_file)
   \<and> execute_commands (Suc 0) posix_host ''in'' True app_with_file
       = Inr ((0, None), app_with_file)"
proof -
  have a: "target_exists (Some ''in'') app_with_file = Inr (None, app_with_file)"
    by (simp add: target_exists_def app_with_file_def app_scope_def initial_def cell_def)
  have b: "file_exists ''in'' app_with_file"
    by (simp add: file_exists_def app_with_file_def at_time_def)
  from existing_file_is_accepted [OF a b, of 0 posix_host False]
       existing_file_is_accepted [OF a b, of 0 posix_host True] a b
  show ?thesis by simp
qed

section \<open>Executor: exit code\<close>

lemma after_dependencies_returns_1:
  "after_dependencies h target target_idx has_parent update_pending s = Inr ((code, w), s')
     \<Longrightarrow> code = 1"
  by (auto simp: after_dependencies_def Let_def undefined_behaviour_def fatal_def
           split: option.splits sum.splits if_splits prod.splits)

text \<open>
  Whenever the name is a declared target, a call of \<open>execute_commands\<close> that returns,
  returns 1: \<open>ex_build_target\<close> ends in \<open>return 1;\<close>.
\<close>

lemma declared_target_returns_1:
  assumes "target_exists (Some target) s = Inr (Some i, s1)"
    and "execute_commands fuel h target has_parent s = Inr ((code, w), s')"
  shows "code = 1"
proof (cases fuel)
  case 0
  with assms(2) show ?thesis by simp
next
  case (Suc n)
  with assms show ?thesis
    by (auto split: sum.splits option.splits prod.splits dest: after_dependencies_returns_1)
qed

text \<open>
  Claim C1 says that a run in which every command exits with 0 and the build target's
  file exists afterwards ends with exit code 0. The program departs from it: on the
  minimal build, with \<open>in\<close> present and \<open>out\<close> absent, the one command \<open>cp in out\<close>
  is spawned and succeeds, \<open>out\<close> exists afterwards, and the value \<open>main\<close> returns
  is 1.
\<close>

theorem minimal_build_exits_with_1:
  "exit_code (xmk_main 30 posix_host no_options (no_files(''in'' := at_time 5)) (Some minimal_build))
     = Some 1
   \<and> spawned (final (xmk_main 30 posix_host no_options (no_files(''in'' := at_time 5))
                       (Some minimal_build))) = [''cp in out'']
   \<and> file_exists ''out'' (final (xmk_main 30 posix_host no_options (no_files(''in'' := at_time 5))
                                   (Some minimal_build)))"
  by code_simp

section \<open>Freshness\<close>

text \<open>
  The \<open>WIN32\<close> body of \<open>update_needed\<close> compares the write times when both files open
  and both times can be read, and answers \<open>true\<close> otherwise.
\<close>

lemma update_needed_WIN32:
  assumes "platform h = WIN32" and "list_size (syntax_rules s TARGET) \<noteq> None"
  shows "update_needed h target dep s =
           (case (disk s dep, disk s target) of
              (Some (Some dep_time), Some (Some target_time)) \<Rightarrow>
                QuadPart dep_time > QuadPart target_time
            | _ \<Rightarrow> True)"
  using assms by (auto simp: update_needed_def split: option.splits)

lemma update_needed_POSIX: "platform h = POSIX \<Longrightarrow> update_needed h target dep s"
  by (simp add: update_needed_def)

text \<open>
  Claim C3 says that, both files existing, a dependency triggers a rebuild exactly when
  its modification time is strictly greater than the target's. The program built for
  POSIX departs from it: with \<open>in\<close> written at 5 and \<open>out\<close> at 7, \<open>update_needed\<close>
  answers \<open>true\<close> and the run of the minimal build spawns \<open>cp in out\<close>; the same
  run under \<open>WIN32\<close> spawns nothing.
\<close>

theorem posix_rebuilds_up_to_date_target:
  "update_needed posix_host ''out'' ''in'' (loaded no_options up_to_date minimal_build)
   \<and> up_to_date ''in'' = at_time 5 \<and> up_to_date ''out'' = at_time 7
   \<and> spawned (final (xmk_main 30 posix_host no_options up_to_date (Some minimal_build)))
       = [''cp in out'']
   \<and> spawned (final (xmk_main 30 win32_host no_options up_to_date (Some minimal_build))) = []"
  by code_simp

text \<open>
  Under \<open>WIN32\<close> the answer of \<open>update_needed\<close> for one dependency can be lost:
  the recursive call for the next dependency, when that is a target, overwrites
  \<open>update_pending\<close> through \<open>parent_update_pending\<close>. Here \<open>in\<close> is newer than
  \<open>out\<close>, and nothing is spawned.
\<close>

lemma win32_newer_dependency_is_forgotten:
  "update_needed win32_host ''out'' ''in'' (loaded no_options newer_input file_and_target)
   \<and> outcome (xmk_main 70 win32_host no_options newer_input (Some file_and_target)) = Inr 1
   \<and> spawned (final (xmk_main 70 win32_host no_options newer_input (Some file_and_target))) = []"
  by code_simp

section \<open>Executor: shared dependencies\<close>

text \<open>
  Claim C4 says that one top-level invocation runs the command list of a target at most
  once. The program departs from it: with \<open>t\<close> depending on \<open>a\<close> and \<open>s\<close>, and
  \<open>a\<close> on \<open>s\<close>, the target \<open>s\<close> is built for \<open>a\<close> (its command is spawned,
  then freed); when \<open>t\<close> comes to its own dependency \<open>s\<close>, \<open>s\<close> is visited again,
  \<open>update_needed\<close> answers \<open>true\<close> for \<open>s.c\<close>, and the command loop of \<open>s\<close> is
  entered a second time, on the string freed by the first run.
\<close>

theorem shared_dependency_commands_run_again:
  "outcome (xmk_main 70 posix_host no_options (no_files(''s.c'' := at_time 5))
              (Some shared_dependency))
     = Inl (Undefined ''ex_build_target: command used after free'')
   \<and> spawned (final (xmk_main 70 posix_host no_options (no_files(''s.c'' := at_time 5))
                       (Some shared_dependency))) = [''mk s'', ''mk a'']"
  by code_simp

text \<open>
  The same happens under \<open>WIN32\<close> when the command of \<open>s\<close> leaves \<open>s\<close> older than
  \<open>s.c\<close>; when it leaves \<open>s\<close> newer, each command is spawned once.
\<close>

lemma shared_dependency_under_win32:
  "outcome (xmk_main 70 stale_host no_options (no_files(''s.c'' := at_time 5))
              (Some shared_dependency))
     = Inl (Undefined ''ex_build_target: command used after free'')
   \<and> spawned (final (xmk_main 70 win32_host no_options (no_files(''s.c'' := at_time 5))
                       (Some shared_dependency))) = [''mk s'', ''mk a'', ''mk t'']"
  by code_simp

section \<open>Tokenizer: dependency index\<close>

text \<open>
  In the current program no digit is ever stored: \<open>strlen(dep_i_str)\<close> is 0 for the
  zeroed array, so the test \<open>dep_i_str_idx < strlen(dep_i_str)\<close> fails each time.
\<close>

lemma dep_scan_stores_nothing:
  "dep_scan (\<lambda>dep_i_str. length (cstr dep_i_str)) cs st (replicate 8 NUL) 0 s
     = Inr ((buf, idx), s')
     \<Longrightarrow> buf = replicate 8 NUL \<and> idx = 0"
proof (induction cs arbitrary: st s)
  case Nil
  then show ?case by simp
next
  case (Cons c cs)
  have z: "length (cstr (replicate 8 NUL)) = 0"
    by (simp add: cstr_def)
  show ?case
  proof (cases st)
    case OPENING_BRACKET
    with Cons show ?thesis by (auto split: if_splits)
  next
    case INDEX
    with Cons z show ?thesis
      by (auto simp: Let_def fatal_def split: if_splits list.splits)
  next
    case CLOSING_BRACKET
    with Cons show ?thesis by auto
  qed
qed

text \<open>
  Claim C2 says that \<open>$(dep[N])\<close> yields the N-th dependency of the current target when
  N is below the dependency count and is fatal otherwise. The program departs from it:
  inside target \<open>app\<close> with dependencies \<open>a.o\<close> and \<open>b.o\<close>, \<open>$(dep[1])\<close> yields
  \<open>a.o\<close>, and so does the out-of-range \<open>$(dep[2])\<close>; parsing the example stores the
  command \<open>ld a.o\<close>. The loop of the older \<open>XMK.C\<close> yields \<open>b.o\<close> for
  \<open>$(dep[1])\<close>.
\<close>

theorem dep_index_is_ignored:
  "outcome (get_dependency ''$(dep[1])'' app_scope) = Inr (Some ''a.o'')
   \<and> outcome (get_dependency ''$(dep[2])'' app_scope) = Inr (Some ''a.o'')
   \<and> outcome (get_dependency_XMK_C ''$(dep[1])'' app_scope) = Inr (Some ''b.o'')
   \<and> list (syntax_rules (final (check_syntax 30 (loaded no_options no_files two_dependencies)))
             CREATED_USING)
       = Some [Ptr [Ptr ''ld a.o'']]"
  by code_simp

text \<open>
  The string \<open>get_dependency\<close> returns is the one in the table. Appended to the last
  dependency on the same line it is both the block \<open>handle_list\<close> reallocates and the
  source of its \<open>strcat\<close>; after a newline it is copied into a new string.
\<close>

lemma dependency_appended_to_itself:
  "outcome (check_syntax 30 (loaded no_options no_files self_append))
     = Inl (Undefined ''handle_list: strcat from the string being reallocated'')
   \<and> outcome (check_syntax 30 (loaded no_options no_files other_append)) = Inr 0
   \<and> list (syntax_rules (final (check_syntax 30 (loaded no_options no_files other_append)))
             DEPENDS_ON)
       = Some [Ptr [Ptr ''a.o'', Ptr ''b.o a.o'']]"
  by code_simp

section \<open>Tokenizer: word length\<close>

lemma buf_at_middle: "buf_at (pre @ c # rest) (length pre) = Some c"
  by (simp add: buf_at_def)

text \<open>
  The copying loop on a run \<open>w\<close> of bytes that all continue the word, followed by a
  byte \<open>c'\<close> at which the loop stops (or with the 254 bytes reached).
\<close>

lemma scan_word_run:
  assumes "\<forall>c \<in> set w. word_goes_on quotes c"
    and "length acc + length w \<le> 254"
    and "\<not> (word_goes_on quotes c' \<and> length acc + length w < 254)"
  shows "scan_word (pre @ w @ c' # rest) quotes (length pre) acc
           = Some (length pre + length w, acc @ w, c')"
  using assms
proof (induction w arbitrary: pre acc)
  case Nil
  then show ?case
    by (subst scan_word.simps) (auto simp: buf_at_middle)
next
  case (Cons x xs)
  have step: "scan_word (pre @ (x # xs) @ c' # rest) quotes (length pre) acc
                = scan_word ((pre @ [x]) @ xs @ c' # rest) quotes (length (pre @ [x])) (acc @ [x])"
    using Cons.prems buf_at_middle [of pre x "xs @ c' # rest"]
    by (subst scan_word.simps) simp
  have "scan_word ((pre @ [x]) @ xs @ c' # rest) quotes (length (pre @ [x])) (acc @ [x])
          = Some (length (pre @ [x]) + length xs, (acc @ [x]) @ xs, c')"
    using Cons.prems by (intro Cons.IH) auto
  with step show ?case by simp
qed

lemma skip_blanks_at_word:
  "starts_word c \<Longrightarrow> skip_blanks (c # rest) 0 False False ln = Some (Found 0 False ln)"
  by (subst skip_blanks.simps) (simp add: buf_at_def starts_word_def)

text \<open>
  Every unquoted word of exactly 254 bytes at the start of the buffer is refused: the
  loop stops with \<open>i = 254\<close> and the test \<open>i >= LENGTHOF(word) - 1\<close> holds.
\<close>

lemma word_of_254_is_fatal:
  assumes buf: "file_buffer s = Some (w @ c' # rest)"
    and len: "length w = 254"
    and plain: "\<forall>c \<in> set w. word_goes_on False c"
    and first: "starts_word (hd w)" "hd w \<noteq> CHR 0x22"
  shows "get_word (Suc fuel) 0 s = Inl (Fatal ''maximum word length has been exceeded'', s)"
proof -
  from len obtain x xs where w: "w = x # xs" by (cases w) auto
  have sk: "skip_blanks (w @ c' # rest) 0 False False (line s) = Some (Found 0 False (line s))"
    using first(1) w skip_blanks_at_word [of x "xs @ c' # rest" "line s"] by simp
  have q: "buf_at (w @ c' # rest) 0 \<noteq> Some (CHR 0x22)"
    using first(2) w by (simp add: buf_at_def)
  have sc: "scan_word (w @ c' # rest) False 0 [] = Some (length w, w, c')"
    using scan_word_run [of w False "[]" c' "[]" rest] plain len by simp
  show ?thesis
    using buf sk q sc len by (simp add: fatal_def)
qed

text \<open>
  Claim C5 says that a word of exactly 254 bytes is tokenized and returned and that 255
  bytes or more are fatal. The program departs from it: a buffer holding one word of
  254 bytes and a newline ends in the fatal error for an exceeded word length.
\<close>

theorem word_of_254_bytes_is_fatal:
  "outcome (get_word 1 0 (loaded no_options no_files (long_word 254)))
     = Inl (Fatal ''maximum word length has been exceeded'')"
proof -
  have "get_word (Suc 0) 0 (loaded no_options no_files (long_word 254))
          = Inl (Fatal ''maximum word length has been exceeded'',
                 loaded no_options no_files (long_word 254))"
    by (rule word_of_254_is_fatal [where w = "replicate 254 (CHR ''a'')" and c' = LF and rest = "[]"])
       (simp_all add: loaded_def long_word_def word_goes_on_def starts_word_def NUL_def)
  then show ?thesis by (simp add: outcome_def)
qed

lemma cstr_plain: "NUL \<notin> set w \<Longrightarrow> cstr w = w"
  by (induction w) (auto simp: cstr_def)

text \<open>
  An unquoted word of fewer than 254 bytes that does not start with \<open>$\<close> is returned
  as it stands; 253 bytes is the longest.
\<close>

lemma plain_word_is_returned:
  assumes buf: "file_buffer s = Some (w @ c' # rest)"
    and len: "length w < 254" and ne: "w \<noteq> []"
    and plain: "\<forall>c \<in> set w. word_goes_on False c \<and> c \<noteq> NUL"
    and first: "starts_word (hd w)" "hd w \<noteq> CHR 0x22" "hd w \<noteq> CHR ''$''"
    and stop: "\<not> word_goes_on False c'"
  shows "get_word (Suc fuel) 0 s
           = Inr ((Some w, length w, False),
                  s\<lparr>line := (if c' = CHR 0x0A then Suc (line s) else line s),
                    word_origin := None\<rparr>)"
proof -
  from ne obtain x xs where w: "w = x # xs" by (cases w) auto
  have sk: "skip_blanks (w @ c' # rest) 0 False False (line s) = Some (Found 0 False (line s))"
    using first(1) w skip_blanks_at_word [of x "xs @ c' # rest" "line s"] by simp
  have q: "buf_at (w @ c' # rest) 0 \<noteq> Some (CHR 0x22)"
    using first(2) w by (simp add: buf_at_def)
  have sc: "scan_word (w @ c' # rest) False 0 [] = Some (length w, w, c')"
    using scan_word_run [of w False "[]" c' "[]" rest] plain len stop by simp
  have cs: "cstr w = w" using plain by (intro cstr_plain) auto
  have fw: "\<And>t. form_word False w t = Inr (Return (Some w), t)"
    using first(3) w by (cases xs) (simp_all add: form_word_def)
  show ?thesis
    using buf sk q sc len cs fw by (simp add: Let_def)
qed

lemma word_of_253_bytes_is_returned:
  "outcome (get_word 1 0 (loaded no_options no_files (long_word 253)))
     = Inr (Some (replicate 253 (CHR ''a'')), 253, False)"
proof -
  let ?begin = "loaded no_options no_files (long_word 253)"
  have "get_word (Suc 0) 0 ?begin
          = Inr ((Some (replicate 253 (CHR ''a'')), length (replicate 253 (CHR ''a'')), False),
                 ?begin\<lparr>line := (if LF = CHR 0x0A then Suc (line ?begin) else line ?begin),
                        word_origin := None\<rparr>)"
    by (rule plain_word_is_returned [where c' = LF and rest = "[]"])
       (simp_all add: loaded_def long_word_def word_goes_on_def starts_word_def NUL_def LF_def)
  then show ?thesis by (simp add: outcome_def)
qed

section \<open>Rule engine: keyword steps\<close>

lemma keyword_matches_iff: "keyword_matches word keyword = (word = keyword)"
  by (auto simp: keyword_matches_def strncmp_equal_def)

text \<open>The comparison of the older \<open>XMK.C\<close> accepts every word that starts with the keyword.\<close>

lemma keyword_matches_XMK_C_iff:
  "keyword_matches_XMK_C word keyword = (take (length keyword) word = keyword)"
  by (auto simp: keyword_matches_XMK_C_def strncmp_equal_def)

text \<open>Where one recipe of a rule has a \<open>KEYWORD\<close> step, every recipe of the rule has one.\<close>

lemma keyword_steps_aligned:
  assumes "ri < length (recipe_list r)" and "cell (recipe_list r ! ri) j = Some KEYWORD"
    and "ri' < length (recipe_list r)"
  shows "cell (recipe_list r ! ri') j = Some KEYWORD"
  using assms
  by (cases r) (auto simp: cell_def less_Suc_eq nth_Cons' split: if_splits)

lemma keyword_step_next:
  assumes "ri < length (recipe_list r)" and "cell (recipe_list r ! ri) j = Some KEYWORD"
  shows "\<exists>st. cell (recipe_list r ! ri) (Suc j) = Some st"
  using assms
  by (cases r) (auto simp: cell_def less_Suc_eq nth_Cons' split: if_splits)

text \<open>
  A word different from the expected keyword is refused by every remaining recipe: the
  call returns \<open>false\<close>.
\<close>

lemma mismatch_is_refused:
  assumes rl: "recursion_level s < 2"
    and ri: "reg (recipe_i s) (recursion_level s) \<le> length (recipe_list r)"
    and kw: "\<forall>ri' < length (recipe_list r).
               cell (recipe_list r ! ri') (reg (step_i s) (recursion_level s)) = Some KEYWORD"
    and ki: "reg (keyword_i s) (recursion_level s) < length (rule_keywords r)"
    and ne: "word \<noteq> rule_keywords r ! reg (keyword_i s) (recursion_level s)"
  shows "\<exists>s'. check_rule r word state nl s = Inr ((False, SEARCHING), s')"
  using assms
proof (induction r word state nl s rule: check_rule.induct)
  case (1 r word state nl s)
  show ?case
  proof (cases "reg (recipe_i s) (recursion_level s) = length (recipe_list r)")
    case True
    with "1.prems" show ?thesis
      by (subst check_rule.simps) simp
  next
    case False
    with "1.prems" have lt: "reg (recipe_i s) (recursion_level s) < length (recipe_list r)" by simp
    then have step: "cell (recipe_list r ! reg (recipe_i s) (recursion_level s))
                       (reg (step_i s) (recursion_level s)) = Some KEYWORD"
      using "1.prems" by simp
    show ?thesis
    proof (cases "word = ''}''")
      case True
      with "1.prems" lt step show ?thesis
        by (subst check_rule.simps) (simp add: keyword_matches_iff)
    next
      case nb: False
      let ?s' = "s\<lparr>recipe_i := set_reg (recipe_i s) (recursion_level s)
                                      (Suc (reg (recipe_i s) (recursion_level s)))\<rparr>"
      have eq: "check_rule r word state nl s = check_rule r word state nl ?s'"
        using "1.prems" lt step nb
        by (subst check_rule.simps) (simp add: keyword_matches_iff)
      have "\<exists>s'. check_rule r word state nl ?s' = Inr ((False, SEARCHING), s')"
      proof (rule "1.IH")
        show "\<not> 2 \<le> recursion_level s" using "1.prems" by simp
        show "\<not> length (recipe_list r) < reg (recipe_i s) (recursion_level s)" using lt by simp
        show "reg (recipe_i s) (recursion_level s) \<noteq> length (recipe_list r)" using lt by simp
        show "cell (recipe_list r ! reg (recipe_i s) (recursion_level s))
                (reg (step_i s) (recursion_level s)) = Some KEYWORD" by (rule step)
        show "\<not> length (rule_keywords r) < reg (keyword_i s) (recursion_level s)"
          using "1.prems" by simp
        show "reg (keyword_i s) (recursion_level s) \<noteq> length (rule_keywords r)"
          using "1.prems" by simp
        show "\<not> keyword_matches word (rule_keywords r ! reg (keyword_i s) (recursion_level s))"
          using "1.prems" by (simp add: keyword_matches_iff)
        show "word \<noteq> ''}''" by (rule nb)
      qed (use "1.prems" lt in \<open>auto simp: reg_def set_reg_def\<close>)
      with eq show ?thesis by simp
    qed
  qed
qed

text \<open>
  Claim C6. At a \<open>KEYWORD\<close> step of any rule, with a keyword left to expect,
  \<open>check_rule\<close> returns normally, and it returns \<open>true\<close> exactly when the word equals
  the expected keyword character for character; a word that only starts with the
  keyword is refused like any other word.
\<close>

theorem keyword_step_matches_exactly:
  assumes rl: "recursion_level s < 2"
    and ri: "reg (recipe_i s) (recursion_level s) < length (recipe_list r)"
    and kw: "cell (recipe_list r ! reg (recipe_i s) (recursion_level s))
                  (reg (step_i s) (recursion_level s)) = Some KEYWORD"
    and ki: "reg (keyword_i s) (recursion_level s) < length (rule_keywords r)"
  shows "\<exists>state' s'. check_rule r word state nl s
           = Inr ((word = rule_keywords r ! reg (keyword_i s) (recursion_level s), state'), s')"
proof (cases "word = rule_keywords r ! reg (keyword_i s) (recursion_level s)")
  case True
  from keyword_step_next [OF ri kw] obtain st where
    nx: "cell (recipe_list r ! reg (recipe_i s) (recursion_level s))
           (Suc (reg (step_i s) (recursion_level s))) = Some st" by blast
  show ?thesis
    using True rl ri kw ki nx
    by (subst check_rule.simps)
       (auto simp: keyword_matches_iff step_done_def reg_def set_reg_def)
next
  case False
  have "\<forall>ri' < length (recipe_list r).
          cell (recipe_list r ! ri') (reg (step_i s) (recursion_level s)) = Some KEYWORD"
    using keyword_steps_aligned [OF ri kw] by blast
  from mismatch_is_refused [OF rl _ this ki False, of state nl] ri False
  show ?thesis by auto
qed

theorem keyword_step_matches_exactly_witness:
  "recursion_level (initial no_options no_files) < 2
   \<and> reg (recipe_i (initial no_options no_files)) (recursion_level (initial no_options no_files))
       < length (recipe_list BUILD)
   \<and> cell (recipe_list BUILD ! reg (recipe_i (initial no_options no_files))
                                   (recursion_level (initial no_options no_files)))
        (reg (step_i (initial no_options no_files)) (recursion_level (initial no_options no_files)))
       = Some KEYWORD
   \<and> reg (keyword_i (initial no_options no_files)) (recursion_level (initial no_options no_files))
       < length (rule_keywords BUILD)
   \<and> (\<exists>state' s'. check_rule BUILD ''builder'' SEARCHING False (initial no_options no_files)
         = Inr ((False, state'), s'))
   \<and> (\<exists>state' s'. check_rule BUILD ''build'' SEARCHING False (initial no_options no_files)
         = Inr ((True, state'), s'))"
proof -
  let ?s = "initial no_options no_files"
  have a: "recursion_level ?s < 2" by (simp add: initial_def)
  have b: "reg (recipe_i ?s) (recursion_level ?s) < length (recipe_list BUILD)"
    by (simp add: initial_def reg_def)
  have c: "cell (recipe_list BUILD ! reg (recipe_i ?s) (recursion_level ?s))
             (reg (step_i ?s) (recursion_level ?s)) = Some KEYWORD"
    by (simp add: initial_def reg_def cell_def)
  have d: "reg (keyword_i ?s) (recursion_level ?s) < length (rule_keywords BUILD)"
    by (simp add: initial_def reg_def)
  have k: "rule_keywords BUILD ! reg (keyword_i ?s) (recursion_level ?s) = ''build''"
    by (simp add: initial_def reg_def)
  from keyword_step_matches_exactly [OF a b c d, of "''builder''" SEARCHING False]
       keyword_step_matches_exactly [OF a b c d, of "''build''" SEARCHING False]
       a b c d k
  show ?thesis by simp
qed

section \<open>What parsing leaves alone\<close>

lemma outcome_final: "outcome r = Inr x \<Longrightarrow> r = Inr (x, final r)"
  by (auto simp: outcome_def final_def split: sum.splits)

lemma syntax_rules_update_slots [simp]:
  "syntax_rules (update_slots r f s) = (syntax_rules s)(r := f (syntax_rules s r))"
  by (simp add: update_slots_def)

lemma update_slots_fields [simp]:
  "cfg (update_slots r f s) = cfg s"
  "disk (update_slots r f s) = disk s"
  "out (update_slots r f s) = out s"
  "file_buffer (update_slots r f s) = file_buffer s"
  "build_target (update_slots r f s) = build_target s"
  "current_scope (update_slots r f s) = current_scope s"
  "def_names (update_slots r f s) = def_names s"
  "def_values (update_slots r f s) = def_values s"
  "recursion_level (update_slots r f s) = recursion_level s"
  "step_i (update_slots r f s) = step_i s"
  "keyword_i (update_slots r f s) = keyword_i s"
  "recipe_i (update_slots r f s) = recipe_i s"
  by (simp_all add: update_slots_def)

lemma printf_fields [simp]:
  "cfg (printf str s) = cfg s"
  "file_buffer (printf str s) = file_buffer s"
  "syntax_rules (printf str s) = syntax_rules s"
  "build_target (printf str s) = build_target s"
  "current_scope (printf str s) = current_scope s"
  "def_names (printf str s) = def_names s"
  "def_values (printf str s) = def_values s"
  by (simp_all add: printf_def)

lemma same_world_refl [simp]: "same_world s s"
  by (simp add: same_world_def)

lemma same_world_trans: "same_world s s1 \<Longrightarrow> same_world s1 s2 \<Longrightarrow> same_world s s2"
  by (simp add: same_world_def)

lemma same_world_printf [simp]: "same_world s (printf str s)"
  by (simp add: same_world_def)

lemma same_world_update_slots [simp]: "same_world s (update_slots r f s)"
  by (simp add: same_world_def spawned_def)

lemma target_exists_world:
  "target_exists t s = Inr (r, s1) \<Longrightarrow> same_world s s1 \<and> file_buffer s1 = file_buffer s"
  by (drule target_exists_frame) auto

lemma dep_scan_world:
  "dep_scan room cs st buf idx s = Inr (x, s1) \<Longrightarrow> same_world s s1 \<and> file_buffer s1 = file_buffer s"
proof (induction room cs st buf idx s rule: dep_scan.induct)
  case (1 room state dep_i_str dep_i_str_idx s)
  then show ?case by simp
next
  case (2 room letter rest dep_i_str dep_i_str_idx s)
  then show ?case by simp
next
  case (3 room letter rest dep_i_str dep_i_str_idx s)
  show ?case
  proof (cases rest)
    case Nil
    with 3 show ?thesis
      by (auto simp: Let_def fatal_def same_world_def split: if_splits)
  next
    case (Cons nxt more)
    with 3 show ?thesis
      by (auto simp: Let_def fatal_def split: if_splits)
  qed
next
  case (4 room letter rest dep_i_str dep_i_str_idx s)
  then show ?case by simp
qed

lemma get_dependency_with_world:
  assumes "get_dependency_with room word s = Inr (x, s1)"
  shows "same_world s s1 \<and> file_buffer s1 = file_buffer s"
proof -
  from assms obtain y s0 where a: "dep_scan room (drop 5 word) OPENING_BRACKET (replicate 8 NUL) 0 s = Inr (y, s0)"
    by (auto simp: get_dependency_with_def split: sum.splits)
  obtain r s2 where b: "target_exists (current_scope s0) s0 = Inr (r, s2)"
    and c: "s1 = s2 \<or> (\<exists>p. s1 = s2\<lparr>word_origin := p\<rparr>)"
    using assms a
    by (auto simp: get_dependency_with_def Let_def undefined_behaviour_def fatal_def
             split: sum.splits prod.splits if_splits option.splits ptr.splits)
  from dep_scan_world [OF a] target_exists_world [OF b] c show ?thesis
    by (auto simp: same_world_def spawned_def)
qed


lemma form_word_world:
  assumes "form_word quotes word s = Inr (x, s1)"
  shows "same_world s s1 \<and> file_buffer s1 = file_buffer s"
proof -
  have dep: "\<And>w y s'. get_dependency w s = Inr (y, s') \<Longrightarrow> same_world s s' \<and> file_buffer s' = file_buffer s"
    unfolding get_dependency_def by (rule get_dependency_with_world)
  have def: "\<And>n y s'. is_define n s = Inr (y, s') \<Longrightarrow> same_world s s' \<and> file_buffer s' = file_buffer s"
    by (auto simp: is_define_def same_world_def spawned_def split: sum.splits option.splits)
  have bn: "\<And>w y s'. get_basename w s = Inr (y, s') \<Longrightarrow> s' = s"
    by (auto simp: get_basename_def Let_def undefined_behaviour_def split: if_splits)
  have ex: "\<And>w y s'. get_extension w s = Inr (y, s') \<Longrightarrow> s' = s"
    by (auto simp: get_extension_def Let_def undefined_behaviour_def split: if_splits list.splits)
  from assms show ?thesis
    unfolding form_word_def
    by (auto simp: fatal_def split: if_splits option.splits sum.splits prod.splits bool.splits
             dest: dep def bn ex)
qed

lemma expand_define_world:
  assumes "expand_define from word s = Inr (True, s1)"
  shows "same_world s s1 \<and> file_buffer s1 \<noteq> None"
  using assms
  by (auto simp: expand_define_def undefined_behaviour_def same_world_def spawned_def
           split: option.splits if_splits)

lemma get_word_world:
  "get_word fuel from s = Inr (x, s1) \<Longrightarrow> same_world s s1 \<and> file_buffer s1 \<noteq> None"
proof (induction fuel arbitrary: "from" s)
  case 0
  then show ?case by simp
next
  case (Suc fuel)
  from Suc.prems obtain b where b: "file_buffer s = Some b"
    by (auto simp: fatal_def split: option.splits)
  show ?case
  proof (cases "skip_blanks b from False False (line s)")
    case None
    with Suc.prems b show ?thesis by (simp add: undefined_behaviour_def)
  next
    case (Some sk)
    show ?thesis
    proof (cases sk)
      case (End_of_buffer f nl ln)
      with Suc.prems b Some show ?thesis
        by (auto simp: same_world_def spawned_def)
    next
      case (Found orig_from nl ln)
      let ?q = "buf_at b orig_from = Some (CHR 0x22)"
      show ?thesis
      proof (cases "scan_word b ?q (if ?q then Suc orig_from else orig_from) []")
        case None
        with Suc.prems b Some Found show ?thesis
          by (simp add: undefined_behaviour_def Let_def)
      next
        case sc: (Some t)
        obtain from2 bytes ch where t: "t = (from2, bytes, ch)" by (cases t)
        let ?s1 = "s\<lparr>line := (if ch = CHR 0x0A then Suc ln else ln), word_origin := None\<rparr>"
        have w1: "same_world s ?s1" "file_buffer ?s1 = file_buffer s"
          by (simp_all add: same_world_def spawned_def)
        from Suc.prems b Some Found sc t
        have short: "\<not> 254 \<le> length bytes"
          by (auto simp: Let_def fatal_def split: if_splits)
        from Suc.prems b Some Found sc t short
        obtain fw s2 where fw: "form_word ?q (cstr bytes) ?s1 = Inr (fw, s2)"
          by (auto simp: Let_def split: sum.splits)
        from form_word_world [OF fw] w1
        have w2: "same_world s s2" "file_buffer s2 = file_buffer s"
          by (auto simp: same_world_def)
        show ?thesis
        proof (cases fw)
          case (Return w)
          with Suc.prems b Some Found sc t short fw have "s1 = s2"
            by (auto simp: Let_def)
          with w2 b show ?thesis by simp
        next
          case Expand
          with Suc.prems b Some Found sc t short fw
          obtain s3 where e: "expand_define orig_from (cstr bytes) s2 = Inr (True, s3)"
            and r: "get_word fuel orig_from s3 = Inr (x, s1)"
            by (auto simp: Let_def fatal_def split: sum.splits prod.splits bool.splits)
          from expand_define_world [OF e] Suc.IH [OF r] w2 show ?thesis
            by (auto simp: same_world_def)
        qed
      qed
    qed
  qed
qed


lemma vis_updates [simp]:
  "vis (update_slots r f s) = vis s"
  "vis (reset_level s) = vis s"
  "vis (pop_level s) = vis s"
  "vis (s\<lparr>recursion_level := n\<rparr>) = vis s"
  "vis (s\<lparr>recipe_i := a\<rparr>) = vis s"
  "vis (s\<lparr>step_i := a\<rparr>) = vis s"
  "vis (s\<lparr>keyword_i := a\<rparr>) = vis s"
  "vis (s\<lparr>build_target := t\<rparr>) = vis s"
  "vis (s\<lparr>current_scope := t\<rparr>) = vis s"
  "vis (s\<lparr>def_names := ns\<rparr>) = vis s"
  "vis (s\<lparr>def_values := ns\<rparr>) = vis s"
  "vis (s\<lparr>def_n := k\<rparr>) = vis s"
  "vis (s\<lparr>def_state := ds\<rparr>) = vis s"
  by (simp_all add: vis_def spawned_def reset_level_def pop_level_def update_slots_def)

lemma set_build_target_vis: "set_build_target t s = Inr (x, s') \<Longrightarrow> vis s' = vis s"
  by (auto simp: set_build_target_def fatal_def split: option.splits)

lemma add_define_vis: "add_define d s = Inr (x, s') \<Longrightarrow> vis s' = vis s"
  by (auto simp: add_define_def split: define_state.splits)

lemma add_target_vis: "add_target t s = Inr (x, s') \<Longrightarrow> vis s' = vis s"
  unfolding add_target_def Let_def
  by (auto simp: fatal_def undefined_behaviour_def
           split: sum.splits bool.splits if_splits option.splits list.splits ptr.splits prod.splits)

lemma create_basic_tree_vis: "create_basic_tree r s = Inr (x, s') \<Longrightarrow> vis s' = vis s"
  unfolding create_basic_tree_def Let_def
  by (auto simp: undefined_behaviour_def split: option.splits ptr.splits if_splits)

lemma target_scope_block_opened_vis: "target_scope_block_opened s = Inr (x, s') \<Longrightarrow> vis s' = vis s"
  unfolding target_scope_block_opened_def Let_def
  by (auto split: sum.splits prod.splits if_splits dest!: create_basic_tree_vis)

lemma scope_block_opened_vis:
  "scope_block_opened r = Some callback \<Longrightarrow> callback s = Inr (x, s') \<Longrightarrow> vis s' = vis s"
  by (cases r)
     (auto simp: created_using_scope_block_opened_def depends_on_scope_block_opened_def
           dest: target_scope_block_opened_vis)

lemma symbol_callback_vis:
  "symbol_callback r = Some callback \<Longrightarrow> callback w s = Inr (x, s') \<Longrightarrow> vis s' = vis s"
  by (cases r) (auto dest: set_build_target_vis add_target_vis add_define_vis)

lemma add_symbol_vis: "add_symbol r w s = Inr (x, s') \<Longrightarrow> vis s' = vis s"
  by (auto simp: add_symbol_def split: option.splits dest: symbol_callback_vis)

lemma scope_vis: "scope r w st s = Inr (x, s') \<Longrightarrow> vis s' = vis s"
  by (auto simp: scope_def fatal_def split: if_splits option.splits sum.splits prod.splits
           dest: scope_block_opened_vis)

lemma store_in_list_vis: "store_in_list r w nl ct s = Inr (x, s') \<Longrightarrow> vis s' = vis s"
  unfolding store_in_list_def
  by (auto simp: fatal_def undefined_behaviour_def
           split: option.splits ptr.splits if_splits)

lemma handle_list_vis: "handle_list r w st nl s = Inr (x, s') \<Longrightarrow> vis s' = vis s"
  unfolding handle_list_def
  by (auto simp: fatal_def undefined_behaviour_def
           split: option.splits sum.splits prod.splits bool.splits if_splits
           dest!: scope_vis store_in_list_vis)

lemma step_done_vis: "step_done recipe s = Inr (x, s') \<Longrightarrow> vis s' = vis s"
  by (auto simp: step_done_def undefined_behaviour_def split: option.splits if_splits)

text \<open>
  The ways a call of \<open>check_rule\<close> that returns can have gone, with \<open>x\<close> the flag and
  state returned and \<open>s'\<close> the globals left: the recipe list or the keyword list was
  at its closing \<open>NULL\<close>; the keyword matched; the word was a closing brace; the next
  recipe was tried; a nested block, a symbol, a list entry or the end of the recipe was
  handled.
\<close>

lemma check_rule_result_induct [consumes 1, case_names closed matched brace retry nested symbol listed ended]:
  assumes run: "check_rule r w st nl s = Inr (x, s')"
    and closed: "\<And>s. x = (False, SEARCHING) \<Longrightarrow> s' = reset_level s \<Longrightarrow> P s"
    and matched: "\<And>s recipe.
        step_done recipe
          (s\<lparr>step_i := set_reg (step_i s) (recursion_level s)
                            (Suc (reg (step_i s) (recursion_level s))),
             keyword_i := set_reg (keyword_i s) (recursion_level s)
                            (Suc (reg (keyword_i s) (recursion_level s)))\<rparr>) = Inr (x, s')
        \<Longrightarrow> P s"
    and brace: "\<And>s. x = (False, SEARCHING) \<Longrightarrow> s' = reset_level (pop_level s) \<Longrightarrow> P s"
    and retry: "\<And>s.
        P (s\<lparr>recipe_i := set_reg (recipe_i s) (recursion_level s)
                             (Suc (reg (recipe_i s) (recursion_level s)))\<rparr>)
        \<Longrightarrow> P s"
    and nested: "\<And>s y.
        scope r w st (s\<lparr>recursion_level := Suc (recursion_level s)\<rparr>) = Inr (y, s')
        \<Longrightarrow> x = (True, SEARCHING) \<Longrightarrow> P s"
    and symbol: "\<And>s y s1 recipe.
        add_symbol r w s = Inr (y, s1)
        \<Longrightarrow> step_done recipe
              (s1\<lparr>step_i := set_reg (step_i s1) (recursion_level s1)
                                 (Suc (reg (step_i s1) (recursion_level s1)))\<rparr>) = Inr (x, s')
        \<Longrightarrow> P s"
    and listed: "\<And>s b st1 s1.
        handle_list r w st nl s = Inr ((b, st1), s1)
        \<Longrightarrow> (if b then x = (True, st1) \<and> s' = s1
             else x = (False, SEARCHING) \<and> s' = reset_level s1)
        \<Longrightarrow> P s"
    and ended: "\<And>s. x = (True, SEARCHING) \<Longrightarrow> s' = pop_level (reset_level s) \<Longrightarrow> P s"
  shows "P s"
  using assms
proof (induction r w st nl s rule: check_rule.induct)
  case (1 r word state newline_detected s)
  let ?rl = "recursion_level s"
  let ?recipe = "recipe_list r ! reg (recipe_i s) ?rl"
  note run = "1.prems"(1)
  from run have g: "\<not> 2 \<le> ?rl" "\<not> length (recipe_list r) < reg (recipe_i s) ?rl"
    by (subst (asm) check_rule.simps, auto simp: undefined_behaviour_def split: if_splits)+
  show ?case
  proof (cases "reg (recipe_i s) ?rl = length (recipe_list r)")
    case True
    with run g have "x = (False, SEARCHING)" "s' = reset_level s"
      by (subst (asm) check_rule.simps, auto)+
    then show ?thesis by (rule "1.prems"(2))
  next
    case False
    from run g False obtain step where
      st: "cell ?recipe (reg (step_i s) ?rl) = Some step"
      by (subst (asm) check_rule.simps) (auto simp: undefined_behaviour_def split: option.splits)
    show ?thesis
    proof (cases step)
      case KEYWORD
      from run g False st KEYWORD
      have k: "\<not> length (rule_keywords r) < reg (keyword_i s) ?rl"
        by (subst (asm) check_rule.simps) (auto simp: undefined_behaviour_def split: if_splits)
      show ?thesis
      proof (cases "reg (keyword_i s) ?rl = length (rule_keywords r)")
        case True
        with run g False st KEYWORD k have "x = (False, SEARCHING)" "s' = reset_level s"
          by (subst (asm) check_rule.simps, auto)+
        then show ?thesis by (rule "1.prems"(2))
      next
        case nk: False
        show ?thesis
        proof (cases "keyword_matches word (rule_keywords r ! reg (keyword_i s) ?rl)")
          case True
          with run g False st KEYWORD k nk
          have "step_done ?recipe
                  (s\<lparr>step_i := set_reg (step_i s) ?rl (Suc (reg (step_i s) ?rl)),
                     keyword_i := set_reg (keyword_i s) ?rl (Suc (reg (keyword_i s) ?rl))\<rparr>)
                  = Inr (x, s')"
            by (subst (asm) check_rule.simps) simp
          then show ?thesis by (rule "1.prems"(3))
        next
          case nm: False
          show ?thesis
          proof (cases "word = ''}''")
            case True
            with run g False st KEYWORD k nk nm
            have "x = (False, SEARCHING)" "s' = reset_level (pop_level s)"
              by (subst (asm) check_rule.simps, auto)+
            then show ?thesis by (rule "1.prems"(4))
          next
            case nb: False
            let ?s1 = "s\<lparr>recipe_i := set_reg (recipe_i s) ?rl (Suc (reg (recipe_i s) ?rl))\<rparr>"
            from run g False st KEYWORD k nk nm nb
            have r: "check_rule r word state newline_detected ?s1 = Inr (x, s')"
              by (subst (asm) check_rule.simps) simp
            have "P ?s1"
              by (rule "1.IH" [OF g(1) g(2) False st KEYWORD k nk nm nb r "1.prems"(2-9)])
            then show ?thesis by (rule "1.prems"(5))
          qed
        qed
      qed
    next
      case SYMBOL
      from run g False st SYMBOL obtain y s1 where
        "add_symbol r word s = Inr (y, s1)"
        "step_done ?recipe (s1\<lparr>step_i := set_reg (step_i s1) (recursion_level s1)
                                      (Suc (reg (step_i s1) (recursion_level s1)))\<rparr>) = Inr (x, s')"
        by (subst (asm) check_rule.simps) (auto split: sum.splits prod.splits)
      then show ?thesis by (rule "1.prems"(7))
    next
      case LIST
      from run g False st LIST obtain b st1 s1 where
        "handle_list r word state newline_detected s = Inr ((b, st1), s1)"
        "if b then x = (True, st1) \<and> s' = s1 else x = (False, SEARCHING) \<and> s' = reset_level s1"
        by (subst (asm) check_rule.simps) (auto split: sum.splits prod.splits bool.splits)
      then show ?thesis by (rule "1.prems"(8))
    next
      case NESTED_RULE
      from run g False st NESTED_RULE obtain y where
        "scope r word state (s\<lparr>recursion_level := Suc ?rl\<rparr>) = Inr (y, s')" "x = (True, SEARCHING)"
        by (subst (asm) check_rule.simps) (auto split: sum.splits prod.splits)
      then show ?thesis by (rule "1.prems"(6))
    next
      case END
      from run g False st END have "x = (True, SEARCHING)" "s' = pop_level (reset_level s)"
        by (subst (asm) check_rule.simps, auto)+
      then show ?thesis by (rule "1.prems"(9))
    qed
  qed
qed

lemma check_rule_vis: "check_rule r w st nl s = Inr (x, s') \<Longrightarrow> vis s' = vis s"
proof (induction rule: check_rule_result_induct)
  case (symbol s y s1 recipe)
  then show ?case by (auto dest!: add_symbol_vis step_done_vis)
qed (auto dest!: step_done_vis scope_vis handle_list_vis split: if_splits)

lemma try_rules_vis: "try_rules rs w st nl s = Inr (x, s') \<Longrightarrow> vis s' = vis s"
proof (induction rs arbitrary: st s)
  case Nil
  then show ?case by simp
next
  case (Cons r rs)
  then show ?case
    by (auto split: sum.splits prod.splits bool.splits dest!: check_rule_vis)
qed

lemma check_word_vis: "check_word w nl st rc s = Inr (x, s') \<Longrightarrow> vis s' = vis s"
  by (auto simp: check_word_def undefined_behaviour_def
           split: parse_state.splits sum.splits prod.splits option.splits
           dest!: try_rules_vis check_rule_vis)

lemma vis_same_world: "vis s' = vis s \<Longrightarrow> same_world s s' \<and> file_buffer s' = file_buffer s"
  by (simp add: vis_def same_world_def)

lemma check_syntax_loop_world:
  "check_syntax_loop fuel from st rc s = Inr (result, s')
     \<Longrightarrow> result = 0 \<and> same_world s s' \<and> file_buffer s' \<noteq> None"
proof (induction fuel arbitrary: "from" st rc s)
  case 0
  then show ?case by simp
next
  case (Suc fuel)
  from Suc.prems obtain w from' nl s1 where
    gw: "get_word (Suc fuel) from s = Inr ((w, from', nl), s1)"
    by (auto split: sum.splits)
  note w1 = get_word_world [OF gw]
  show ?case
  proof (cases w)
    case None
    with Suc.prems gw w1 show ?thesis by simp
  next
    case (Some word)
    with Suc.prems gw obtain st' rc' s2 where
      cw: "check_word word nl st rc s1 = Inr ((st', rc'), s2)"
      and rest: "check_syntax_loop fuel from' st' rc' s2 = Inr (result, s')"
      by (auto split: sum.splits)
    from vis_same_world [OF check_word_vis [OF cw]] w1 Suc.IH [OF rest]
    show ?thesis by (auto simp: same_world_def)
  qed
qed

section \<open>Preprocess only\<close>

text \<open>
  With the preprocess option set, once the syntax check has returned, \<open>parse_file\<close>
  prints the source buffer as the tokenizer left it and returns 0; no command is handed
  to the host and the files are untouched, from the start of parsing on.
\<close>

lemma preprocess_returns_before_commands:
  assumes "preprocess (cfg s)"
    and "check_syntax fuel s = Inr (result, s1)"
  shows "\<exists>b. file_buffer s1 = Some b
             \<and> parse_file fuel h s = Inr (0, printf (cstr b) s1)
             \<and> spawned (printf (cstr b) s1) = spawned s
             \<and> disk (printf (cstr b) s1) = disk s"
proof -
  from check_syntax_loop_world [OF assms(2) [unfolded check_syntax_def]]
  have w: "same_world s s1" and b: "file_buffer s1 \<noteq> None" by simp_all
  from b obtain b' where b': "file_buffer s1 = Some b'" by auto
  from w assms(1) have p: "preprocess (cfg s1)" by (simp add: same_world_def)
  have "parse_file fuel h s = Inr (0, printf (cstr b') s1)"
    using assms(2) p b' by (simp add: parse_file_def)
  with b' w show ?thesis by (auto simp: same_world_def)
qed

text \<open>
  No call of \<open>expand_define\<close> returns an expanded buffer: whenever text follows the
  token, the second \<open>strcpy\<close> puts its terminator at index \<open>new_length\<close> of a block
  of \<open>new_length\<close> bytes. (The copy made aside is allocated with
  \<open>after_length + 1\<close> bytes.)
\<close>

lemma expand_define_never_expands:
  "expand_define from word s = Inr (b, s') \<Longrightarrow> \<not> b \<and> s' = s"
  by (auto simp: expand_define_def undefined_behaviour_def Let_def
           split: option.splits if_splits)

lemma expand_define_writes_after_buffer:
  assumes "file_buffer s = Some (pre @ word @ c # rest)" and "c \<noteq> NUL"
    and "cell (def_values s) (def_selected_i s) = Some val"
  shows "expand_define (length pre) word s
           = undefined_behaviour ''expand_define: strcpy writes after the reallocated buffer'' s"
  using assms by (simp add: expand_define_def buf_at_def nth_append Let_def)

text \<open>
  Claim C7 says that with the preprocess option the program prints the source with
  every define use inlined and exits without running a command. The program departs
  from it: on a build file that defines \<open>CC\<close> and \<open>FLAGS\<close> and uses both in a
  command, the expansion of \<open>$CC\<close> writes after the block that \<open>realloc\<close> returned,
  and nothing has been printed at that point. A source that uses no define is printed
  as it stands, the exit code is 0, and no command is spawned.
\<close>

theorem preprocess_expansion_writes_after_buffer:
  "outcome (xmk_main 40 posix_host only_preprocess (no_files(''foo.c'' := at_time 5))
              (Some define_expansion))
     = Inl (Undefined ''expand_define: strcpy writes after the reallocated buffer'')
   \<and> out (final (xmk_main 40 posix_host only_preprocess (no_files(''foo.c'' := at_time 5))
                   (Some define_expansion))) = []
   \<and> outcome (xmk_main 40 posix_host only_preprocess (no_files(''in'' := at_time 5))
                (Some minimal_build)) = Inr 0
   \<and> out (final (xmk_main 40 posix_host only_preprocess (no_files(''in'' := at_time 5))
                   (Some minimal_build))) = [Stdout minimal_build]"
  by code_simp


section \<open>Words no rule claims\<close>

lemma store_registers [simp]:
  "store (reset_level s) = store s"
  "store (pop_level s) = store s"
  "store (s\<lparr>recipe_i := a\<rparr>) = store s"
  by (simp_all add: store_def reset_level_def pop_level_def)

lemma store_in_list_true: "store_in_list r w nl ct s = Inr (b, s') \<Longrightarrow> b"
  unfolding store_in_list_def
  by (auto simp: fatal_def undefined_behaviour_def split: option.splits ptr.splits if_splits)

lemma handle_list_true: "handle_list r w st nl s = Inr ((b, st'), s') \<Longrightarrow> b"
  unfolding handle_list_def
  by (auto simp: fatal_def undefined_behaviour_def
           split: option.splits sum.splits prod.splits bool.splits if_splits
           dest: store_in_list_true)

lemma step_done_true: "step_done recipe s = Inr ((b, st'), s') \<Longrightarrow> b"
  by (auto simp: step_done_def undefined_behaviour_def split: option.splits if_splits)

lemma check_rule_false:
  "check_rule r w st nl s = Inr ((False, st'), s') \<Longrightarrow> st' = SEARCHING \<and> store s' = store s"
proof (induction rule: check_rule_result_induct)
  case (listed s b st1 s1)
  then show ?case by (auto dest: handle_list_true split: if_splits)
qed (auto dest: step_done_true)

lemma no_rule_claims:
  "try_rules rs w st nl s = Inr ((None, st'), s')
     \<Longrightarrow> store s' = store s \<and> (rs \<noteq> [] \<longrightarrow> st' = SEARCHING)"
proof (induction rs arbitrary: st s)
  case Nil
  then show ?case by simp
next
  case (Cons r rs)
  from Cons.prems obtain st1 s1 where
    c: "check_rule r w st nl s = Inr ((False, st1), s1)"
    and t: "try_rules rs w st1 nl s1 = Inr ((None, st'), s')"
    by (auto split: sum.splits prod.splits bool.splits)
  from check_rule_false [OF c] Cons.IH [OF t] t show ?case
    by (cases rs) auto
qed

lemma set_reg_same: "reg a i = v \<Longrightarrow> i < 2 \<Longrightarrow> set_reg a i v = a"
  by (cases a) (auto simp: reg_def set_reg_def)

lemma set_reg_twice [simp]: "set_reg (set_reg a i v) i w = set_reg a i w"
  by (simp add: set_reg_def)

lemma reg_set_reg [simp]: "reg (set_reg a i v) i = v"
  by (simp add: reg_def set_reg_def)

lemma reset_fresh: "fresh_level s \<Longrightarrow> reset_level (s\<lparr>recipe_i := set_reg (recipe_i s) (recursion_level s) k\<rparr>) = s"
  by (simp add: fresh_level_def reset_level_def set_reg_same)

lemma reset_fresh0: "fresh_level s \<Longrightarrow> reset_level s = s"
  by (simp add: fresh_level_def reset_level_def set_reg_same)

lemma unknown_word_refused:
  assumes "fresh_level s" and "word \<noteq> hd (rule_keywords r)" and "word \<noteq> ''}''"
  shows "check_rule r word st nl s = Inr ((False, SEARCHING), s)"
proof -
  let ?rl = "recursion_level s"
  let ?s1 = "s\<lparr>recipe_i := set_reg (recipe_i s) ?rl (Suc 0)\<rparr>"
  let ?s2 = "s\<lparr>recipe_i := set_reg (recipe_i s) ?rl (Suc (Suc 0))\<rparr>"
  from assms(1) have f: "?rl < 2" "reg (step_i s) ?rl = 0" "reg (keyword_i s) ?rl = 0"
    "reg (recipe_i s) ?rl = 0"
    by (simp_all add: fresh_level_def)
  have one: "length (recipe_list r) = 1 \<Longrightarrow> check_rule r word st nl ?s1 = Inr ((False, SEARCHING), s)"
    using f reset_fresh [OF assms(1)] by (subst check_rule.simps) simp
  have two: "length (recipe_list r) = 2 \<Longrightarrow> check_rule r word st nl ?s2 = Inr ((False, SEARCHING), s)"
    using f reset_fresh [OF assms(1)] by (subst check_rule.simps) simp
  show ?thesis
  proof (cases r)
    case DEFINE_AS
    have a: "check_rule r word st nl s = check_rule r word st nl ?s1"
      using f assms(2,3) DEFINE_AS
      by (subst check_rule.simps) (simp add: cell_def keyword_matches_iff)
    have b: "check_rule r word st nl ?s1 = check_rule r word st nl ?s2"
      using f assms(2,3) DEFINE_AS
      by (subst check_rule.simps) (simp add: cell_def keyword_matches_iff)
    from a b two DEFINE_AS show ?thesis by simp
  next
    case BUILD
    have a: "check_rule r word st nl s = check_rule r word st nl ?s1"
      using f assms(2,3) BUILD
      by (subst check_rule.simps) (simp add: cell_def keyword_matches_iff)
    from a one BUILD show ?thesis by simp
  next
    case DEPENDS_ON
    have a: "check_rule r word st nl s = check_rule r word st nl ?s1"
      using f assms(2,3) DEPENDS_ON
      by (subst check_rule.simps) (simp add: cell_def keyword_matches_iff)
    from a one DEPENDS_ON show ?thesis by simp
  next
    case CREATED_USING
    have a: "check_rule r word st nl s = check_rule r word st nl ?s1"
      using f assms(2,3) CREATED_USING
      by (subst check_rule.simps) (simp add: cell_def keyword_matches_iff)
    from a one CREATED_USING show ?thesis by simp
  next
    case TARGET
    have a: "check_rule r word st nl s = check_rule r word st nl ?s1"
      using f assms(2,3) TARGET
      by (subst check_rule.simps) (simp add: cell_def keyword_matches_iff)
    from a one TARGET show ?thesis by simp
  qed
qed

lemma first_keywords_eq: "first_keywords = [''define'', ''build'', ''depends'', ''created'', ''target'']"
  by (simp add: first_keywords_def rule_order_def)

lemma unknown_word_unclaimed:
  assumes "fresh_level s" and "word \<notin> set first_keywords" and "word \<noteq> ''}''"
  shows "try_rules rule_order word SEARCHING nl s = Inr ((None, SEARCHING), s)"
  using assms
  by (simp add: rule_order_def first_keywords_def unknown_word_refused)

lemma check_syntax_loop_returns_0:
  "check_syntax_loop fuel from st rc s = Inr (result, s') \<Longrightarrow> result = 0"
  by (drule check_syntax_loop_world) simp

text \<open>
  A rule at a keyword step refuses a word that is not the keyword it waits for (or any
  word, when its keywords are used up) and clears the registers of the current level.
\<close>

lemma reset_level_recipe_i [simp]:
  "reset_level (s\<lparr>recipe_i := set_reg (recipe_i s) (recursion_level s) k\<rparr>) = reset_level s"
  by (simp add: reset_level_def)

lemma mismatch_clears_registers:
  assumes rl: "recursion_level s < 2"
    and ri: "reg (recipe_i s) (recursion_level s) \<le> length (recipe_list r)"
    and kw: "\<forall>ri' < length (recipe_list r).
               cell (recipe_list r ! ri') (reg (step_i s) (recursion_level s)) = Some KEYWORD"
    and ki: "reg (keyword_i s) (recursion_level s) \<le> length (rule_keywords r)"
    and ne: "reg (keyword_i s) (recursion_level s) < length (rule_keywords r)
               \<Longrightarrow> word \<noteq> rule_keywords r ! reg (keyword_i s) (recursion_level s)"
    and nb: "word \<noteq> ''}''"
  shows "check_rule r word state nl s = Inr ((False, SEARCHING), reset_level s)"
  using assms
proof (induction r word state nl s rule: check_rule.induct)
  case (1 r word state nl s)
  show ?case
  proof (cases "reg (recipe_i s) (recursion_level s) = length (recipe_list r)")
    case True
    with "1.prems" show ?thesis
      by (subst check_rule.simps) simp
  next
    case False
    with "1.prems" have lt: "reg (recipe_i s) (recursion_level s) < length (recipe_list r)" by simp
    then have step: "cell (recipe_list r ! reg (recipe_i s) (recursion_level s))
                       (reg (step_i s) (recursion_level s)) = Some KEYWORD"
      using "1.prems" by simp
    show ?thesis
    proof (cases "reg (keyword_i s) (recursion_level s) = length (rule_keywords r)")
      case True
      with "1.prems" lt step show ?thesis
        by (subst check_rule.simps) simp
    next
      case nk: False
      with "1.prems" have kl: "reg (keyword_i s) (recursion_level s) < length (rule_keywords r)"
        by simp
      with "1.prems" have ne: "word \<noteq> rule_keywords r ! reg (keyword_i s) (recursion_level s)"
        by simp
      let ?s' = "s\<lparr>recipe_i := set_reg (recipe_i s) (recursion_level s)
                                      (Suc (reg (recipe_i s) (recursion_level s)))\<rparr>"
      have eq: "check_rule r word state nl s = check_rule r word state nl ?s'"
        using "1.prems" lt step kl ne
        by (subst check_rule.simps) (simp add: keyword_matches_iff)
      have "check_rule r word state nl ?s' = Inr ((False, SEARCHING), reset_level ?s')"
      proof (rule "1.IH")
        show "\<not> 2 \<le> recursion_level s" using "1.prems" by simp
        show "\<not> length (recipe_list r) < reg (recipe_i s) (recursion_level s)" using lt by simp
        show "reg (recipe_i s) (recursion_level s) \<noteq> length (recipe_list r)" using lt by simp
        show "cell (recipe_list r ! reg (recipe_i s) (recursion_level s))
                (reg (step_i s) (recursion_level s)) = Some KEYWORD" by (rule step)
        show "\<not> length (rule_keywords r) < reg (keyword_i s) (recursion_level s)"
          using kl by simp
        show "reg (keyword_i s) (recursion_level s) \<noteq> length (rule_keywords r)"
          using kl by simp
        show "\<not> keyword_matches word (rule_keywords r ! reg (keyword_i s) (recursion_level s))"
          using ne by (simp add: keyword_matches_iff)
        show "word \<noteq> ''}''" using "1.prems" by simp
      qed (use "1.prems" lt kl ne in \<open>auto simp: reg_def set_reg_def\<close>)
      with eq show ?thesis by simp
    qed
  qed
qed

lemma reset_level_is_fresh: "recursion_level s < 2 \<Longrightarrow> fresh_level (reset_level s)"
  by (simp add: fresh_level_def reset_level_def)

lemma fresh_level_at_keyword_step:
  "fresh_level s \<Longrightarrow> at_keyword_step r s \<and> awaited r s = Some (hd (rule_keywords r))"
  by (cases r) (simp_all add: fresh_level_def at_keyword_step_def awaited_def cell_def)

lemma first_rule_refuses:
  assumes "at_keyword_step DEFINE_AS s" and "awaited DEFINE_AS s \<noteq> Some word"
    and "word \<noteq> ''}''"
  shows "check_rule DEFINE_AS word st nl s = Inr ((False, SEARCHING), reset_level s)"
proof (rule mismatch_clears_registers)
  from assms(1) show "recursion_level s < 2"
    and "reg (recipe_i s) (recursion_level s) \<le> length (recipe_list DEFINE_AS)"
    and "reg (keyword_i s) (recursion_level s) \<le> length (rule_keywords DEFINE_AS)"
    by (simp_all add: at_keyword_step_def)
  from assms(1) have
    "reg (recipe_i s) (recursion_level s) < length (recipe_list DEFINE_AS)"
    "cell (recipe_list DEFINE_AS ! reg (recipe_i s) (recursion_level s))
          (reg (step_i s) (recursion_level s)) = Some KEYWORD"
    by (simp_all add: at_keyword_step_def)
  from keyword_steps_aligned [OF this]
  show "\<forall>ri' < length (recipe_list DEFINE_AS).
          cell (recipe_list DEFINE_AS ! ri') (reg (step_i s) (recursion_level s)) = Some KEYWORD"
    by blast
  show "word \<noteq> rule_keywords DEFINE_AS ! reg (keyword_i s) (recursion_level s)"
    if "reg (keyword_i s) (recursion_level s) < length (rule_keywords DEFINE_AS)"
    using that assms(2) by (simp add: awaited_def)
  show "word \<noteq> ''}''" by (rule assms(3))
qed

lemma stale_word_unclaimed:
  assumes "at_keyword_step DEFINE_AS s" and "awaited DEFINE_AS s \<noteq> Some word"
    and "word \<notin> set first_keywords" and "word \<noteq> ''}''"
  shows "try_rules rule_order word SEARCHING nl s = Inr ((None, SEARCHING), reset_level s)"
proof -
  from assms(1) have "recursion_level s < 2" by (simp add: at_keyword_step_def)
  then have f: "fresh_level (reset_level s)" by (rule reset_level_is_fresh)
  from assms(3) have k: "word \<noteq> hd (rule_keywords r)" for r
    by (cases r) (auto simp: first_keywords_eq)
  show ?thesis
    using first_rule_refuses [OF assms(1,2,4)] unknown_word_refused [OF f k assms(4)]
    by (simp add: rule_order_def)
qed

text \<open>
  A closing brace is refused by a rule at a keyword step, which pops one nesting level
  (none at level 0) and clears the registers of the level it arrives at; so it is
  refused by every rule in turn.
\<close>

lemma fresh_after_pop: "recursion_level s < 2 \<Longrightarrow> fresh_level (reset_level (pop_level s))"
  by (simp add: fresh_level_def reset_level_def pop_level_def)

lemma brace_refused:
  assumes "fresh_level s"
  shows "check_rule r ''}'' st nl s = Inr ((False, SEARCHING), reset_level (pop_level s))"
  using assms
  by (subst check_rule.simps, cases r)
     (simp_all add: fresh_level_def cell_def keyword_matches_iff)

lemma brace_refused_by_all:
  "fresh_level s \<Longrightarrow>
     \<exists>s'. try_rules rs ''}'' SEARCHING nl s = Inr ((None, SEARCHING), s') \<and> fresh_level s'"
proof (induction rs arbitrary: s)
  case Nil
  then show ?case by simp
next
  case (Cons r rs)
  from Cons.prems have "recursion_level s < 2" by (simp add: fresh_level_def)
  from Cons.IH [OF fresh_after_pop [OF this]] brace_refused [OF Cons.prems]
  show ?case by simp
qed

lemma first_rule_refuses_brace:
  assumes "at_keyword_step DEFINE_AS s"
  shows "\<exists>s1. check_rule DEFINE_AS ''}'' st nl s = Inr ((False, SEARCHING), s1) \<and> fresh_level s1"
proof (cases "reg (keyword_i s) (recursion_level s) = length (rule_keywords DEFINE_AS)")
  case True
  with assms have "check_rule DEFINE_AS ''}'' st nl s = Inr ((False, SEARCHING), reset_level s)"
    by (subst check_rule.simps) (simp add: at_keyword_step_def)
  with assms reset_level_is_fresh [of s] show ?thesis by (simp add: at_keyword_step_def)
next
  case False
  with assms have k: "reg (keyword_i s) (recursion_level s) < 2" by (simp add: at_keyword_step_def)
  then have "rule_keywords DEFINE_AS ! reg (keyword_i s) (recursion_level s) \<noteq> ''}''"
    by (auto simp: less_Suc_eq numeral_2_eq_2)
  with assms False have
    "check_rule DEFINE_AS ''}'' st nl s = Inr ((False, SEARCHING), reset_level (pop_level s))"
    by (subst check_rule.simps) (simp add: at_keyword_step_def keyword_matches_iff)
  with assms fresh_after_pop [of s] show ?thesis by (simp add: at_keyword_step_def)
qed

lemma closing_brace_is_unclaimed:
  assumes "at_keyword_step DEFINE_AS s"
  shows "\<exists>s'. try_rules rule_order ''}'' SEARCHING nl s = Inr ((None, SEARCHING), s')"
proof -
  from first_rule_refuses_brace [OF assms] obtain s1 where
    a: "check_rule DEFINE_AS ''}'' SEARCHING nl s = Inr ((False, SEARCHING), s1)"
    and f: "fresh_level s1" by blast
  from brace_refused_by_all [OF f] obtain s' where
    b: "try_rules [BUILD, DEPENDS_ON, CREATED_USING, TARGET] ''}'' SEARCHING nl s1
          = Inr ((None, SEARCHING), s')" by blast
  from a b have "try_rules rule_order ''}'' SEARCHING nl s = Inr ((None, SEARCHING), s')"
    by (simp add: rule_order_def)
  then show ?thesis ..
qed

text \<open>
  Claim C9 says that in the \<open>SEARCHING\<close> state a word that is no rule's first keyword
  is discarded. The program departs from it where the registers of the current level are
  not clear. After the words \<open>target t { build x\<close> the state is \<open>SEARCHING\<close>, the
  completed \<open>build\<close> rule has popped the nesting level, and the registers of level 0
  still hold the position of the \<open>target\<close> header (step 2, keyword 1). The first rule
  of the table, \<open>define\<close> ... \<open>as\<close>, is tried at that position and takes the word
  \<open>as\<close>, which is no rule's first keyword, as its second keyword; the word after it is
  stored as a define name. At the start of a file the same two words are discarded.
\<close>

theorem as_is_claimed_after_build_in_block:
  "''as'' \<notin> set first_keywords
   \<and> outcome (check_words [(''target'', False), (''t'', False), (''{'', False),
                            (''build'', True), (''x'', False)]
                SEARCHING None (initial no_options no_files))
       = Inr (SEARCHING, Some BUILD)
   \<and> outcome (check_words [(''target'', False), (''t'', False), (''{'', False),
                            (''build'', True), (''x'', False), (''as'', True)]
                SEARCHING None (initial no_options no_files))
       = Inr (CHECKING, Some DEFINE_AS)
   \<and> outcome (check_syntax 10 (loaded no_options no_files build_in_block)) = Inr 0
   \<and> def_names (final (check_syntax 10 (loaded no_options no_files build_in_block))) = [''y'']
   \<and> def_names (final (check_syntax 10 (loaded no_options no_files (''as y'' @ [LF])))) = []"
  by code_simp

text \<open>
  At the same position any other word that is no rule's first keyword is discarded,
  and so is the word after it.
\<close>

lemma other_word_after_build_in_block:
  "outcome (check_words [(''target'', False), (''t'', False), (''{'', False),
                         (''build'', True), (''x'', False), (''foo'', True), (''y'', False)]
              SEARCHING None (initial no_options no_files))
     = Inr (SEARCHING, Some BUILD)
   \<and> def_names (final (check_syntax 10 (loaded no_options no_files
                  (''target t {'' @ [LF] @ ''build x'' @ [LF] @ ''foo y'' @ [LF])))) = []"
  by code_simp

text \<open>
  Claim C9 as amended. In the \<open>SEARCHING\<close> state the first rule of the table is tried
  at the position the registers of the current level hold. When that is a keyword step
  of \<open>define\<close> ... \<open>as\<close> (as it is with the registers clear, after a closed list, and
  after a \<open>target\<close> header) and the word is not the keyword awaited there, a word that
  is none of the rules' first keywords is refused by every rule: the loop body returns
  normally, nothing is printed and nothing is stored (only the registers and the nesting
  level of \<open>check_rule\<close> can differ, and for a word other than a closing brace just
  the registers of the current level, which are cleared), the state stays
  \<open>SEARCHING\<close>, the loop goes on with the next word, and whenever \<open>check_syntax\<close>
  returns it returns 0.
\<close>

theorem unclaimed_word_is_discarded:
  assumes "get_word (Suc fuel) from s0 = Inr ((Some word, from', nl), s)"
    and "at_keyword_step DEFINE_AS s"
    and "awaited DEFINE_AS s \<noteq> Some word"
    and "word \<notin> set first_keywords"
  shows "\<exists>s1. check_word word nl SEARCHING rc s = Inr ((SEARCHING, rc), s1)
              \<and> store s1 = store s
              \<and> (word \<noteq> ''}'' \<longrightarrow> s1 = reset_level s)
              \<and> check_syntax_loop (Suc fuel) from SEARCHING rc s0
                  = check_syntax_loop fuel from' SEARCHING rc s1
              \<and> (\<forall>result s'. check_syntax_loop fuel from' SEARCHING rc s1 = Inr (result, s')
                     \<longrightarrow> result = 0)"
proof -
  have "\<exists>s1. try_rules rule_order word SEARCHING nl s = Inr ((None, SEARCHING), s1)
              \<and> (word \<noteq> ''}'' \<longrightarrow> s1 = reset_level s)"
  proof (cases "word = ''}''")
    case True
    with closing_brace_is_unclaimed [OF assms(2)] show ?thesis by simp
  next
    case False
    with stale_word_unclaimed [OF assms(2,3,4)] show ?thesis by simp
  qed
  then obtain s1 where
    t: "try_rules rule_order word SEARCHING nl s = Inr ((None, SEARCHING), s1)"
    and r: "word \<noteq> ''}'' \<longrightarrow> s1 = reset_level s" by blast
  from t have a: "check_word word nl SEARCHING rc s = Inr ((SEARCHING, rc), s1)"
    by (simp add: check_word_def)
  from no_rule_claims [OF t] have st: "store s1 = store s" by simp
  have b: "check_syntax_loop (Suc fuel) from SEARCHING rc s0
             = check_syntax_loop fuel from' SEARCHING rc s1"
    using assms(1) a by simp
  from a st r b check_syntax_loop_returns_0 show ?thesis by blast
qed

theorem unclaimed_word_is_discarded_witness:
  "get_word (Suc 4) (length list_closed) after_list
     = Inr ((Some ''foo'', length list_closed + 3, False),
            final (get_word (Suc 4) (length list_closed) after_list))
   \<and> at_keyword_step DEFINE_AS (final (get_word (Suc 4) (length list_closed) after_list))
   \<and> awaited DEFINE_AS (final (get_word (Suc 4) (length list_closed) after_list)) = None
   \<and> \<not> fresh_level (final (get_word (Suc 4) (length list_closed) after_list))
   \<and> ''foo'' \<notin> set first_keywords \<and> ''foo'' \<noteq> ''}''
   \<and> check_word ''foo'' False SEARCHING (Some DEPENDS_ON)
         (final (get_word (Suc 4) (length list_closed) after_list))
       = Inr ((SEARCHING, Some DEPENDS_ON),
              reset_level (final (get_word (Suc 4) (length list_closed) after_list)))
   \<and> outcome (check_syntax 20 (loaded no_options no_files (list_closed @ stray_word))) = Inr 0
   \<and> build_target (final (check_syntax 20 (loaded no_options no_files (list_closed @ stray_word))))
       = Some ''out''
   \<and> out (final (check_syntax 20 (loaded no_options no_files (list_closed @ stray_word)))) = []"
proof -
  let ?mid = "final (get_word (Suc 4) (length list_closed) after_list)"
  have "outcome (get_word (Suc 4) (length list_closed) after_list)
          = Inr (Some ''foo'', length list_closed + 3, False)"
    by code_simp
  then have a: "get_word (Suc 4) (length list_closed) after_list
                  = Inr ((Some ''foo'', length list_closed + 3, False), ?mid)"
    by (rule outcome_final)
  have b: "at_keyword_step DEFINE_AS ?mid" by code_simp
  have b': "awaited DEFINE_AS ?mid = None" by code_simp
  then have b'': "awaited DEFINE_AS ?mid \<noteq> Some ''foo''" by simp
  have n: "\<not> fresh_level ?mid" by code_simp
  have c: "''foo'' \<notin> set first_keywords" by (simp add: first_keywords_eq)
  have d: "''foo'' \<noteq> ''}''" by simp
  have e: "outcome (check_syntax 20 (loaded no_options no_files (list_closed @ stray_word))) = Inr 0"
    by code_simp
  have f: "build_target (final (check_syntax 20 (loaded no_options no_files (list_closed @ stray_word))))
             = Some ''out''" by code_simp
  have g: "out (final (check_syntax 20 (loaded no_options no_files (list_closed @ stray_word)))) = []"
    by code_simp
  from unclaimed_word_is_discarded [OF a b b'' c, of "Some DEPENDS_ON"] d
  have h: "check_word ''foo'' False SEARCHING (Some DEPENDS_ON) ?mid
             = Inr ((SEARCHING, Some DEPENDS_ON), reset_level ?mid)"
    by auto
  from a b b' n c d e f g h show ?thesis by simp
qed

section \<open>Parallel tables\<close>

lemma same_rules:
  assumes "syntax_rules s' = syntax_rules s"
  shows "target_count s' = target_count s" and "table_len r s' = table_len r s"
    and "tables_in_step s' = tables_in_step s" and "target_names s' = target_names s"
    and "ready r s' = ready r s"
  using assms
  by (simp_all add: target_count_def size_at_def table_len_def tables_in_step_def
                    target_names_def ready_def)

lemma length_realloc_arr [simp]: "length (realloc_arr n fill xs) = n"
  by (simp add: realloc_arr_def)

lemma create_basic_tree_len:
  assumes "create_basic_tree r s = Inr (x, s')" and "r \<noteq> TARGET" and "ready r s"
  shows "table_len r s' = target_count s \<and> target_count s' = target_count s
         \<and> (\<forall>r'. r' \<noteq> r \<longrightarrow> syntax_rules s' r' = syntax_rules s r')"
  using assms
  unfolding create_basic_tree_def Let_def
  by (auto simp: undefined_behaviour_def ready_def table_len_def target_count_def size_at_def
           split: option.splits ptr.splits if_splits)


lemma ready_other:
  assumes "\<forall>r'. r' \<noteq> r \<longrightarrow> syntax_rules s' r' = syntax_rules s r'"
    and "r \<noteq> TARGET" and "q \<noteq> r"
  shows "ready q s' = ready q s" and "table_len q s' = table_len q s"
  using assms by (simp_all add: ready_def table_len_def target_count_def size_at_def)

lemma in_step_ready: "tables_in_step s \<Longrightarrow> ready DEPENDS_ON s \<and> ready CREATED_USING s"
  by (auto simp: tables_in_step_def ready_def table_len_def split: option.splits if_splits)

lemma target_scope_block_opened_len:
  assumes "target_scope_block_opened s = Inr (st, s')"
    and "ready DEPENDS_ON s" and "ready CREATED_USING s"
  shows "tables_in_step s' \<and> target_count s' = target_count s"
proof -
  have ls: "list_size (syntax_rules s TARGET) \<noteq> None"
  proof
    assume n: "list_size (syntax_rules s TARGET) = None"
    let ?s0 = "update_slots TARGET (\<lambda>r. r\<lparr>list_size := Some [Some 0]\<rparr>) s"
    have "target_count ?s0 = Some 0"
      by (simp add: target_count_def size_at_def cell_def)
    then have "\<exists>e. create_basic_tree DEPENDS_ON ?s0 = Inl e"
      by (simp add: create_basic_tree_def undefined_behaviour_def)
    with assms(1) n show False
      by (auto simp: target_scope_block_opened_def)
  qed
  from assms(1) ls obtain x1 s1 x2 where
    a: "create_basic_tree DEPENDS_ON s = Inr (x1, s1)"
    and b: "create_basic_tree CREATED_USING s1 = Inr (x2, s')"
    by (auto simp: target_scope_block_opened_def split: sum.splits prod.splits)
  from create_basic_tree_len [OF a _ assms(2)]
  have a': "table_len DEPENDS_ON s1 = target_count s" "target_count s1 = target_count s"
    "\<forall>r'. r' \<noteq> DEPENDS_ON \<longrightarrow> syntax_rules s1 r' = syntax_rules s r'"
    by simp_all
  have r1: "ready CREATED_USING s1"
    using ready_other(1) [OF a'(3), of CREATED_USING] assms(3) by simp
  from create_basic_tree_len [OF b _ r1]
  have b': "table_len CREATED_USING s' = target_count s1" "target_count s' = target_count s1"
    "\<forall>r'. r' \<noteq> CREATED_USING \<longrightarrow> syntax_rules s' r' = syntax_rules s1 r'"
    by simp_all
  have d: "table_len DEPENDS_ON s' = table_len DEPENDS_ON s1"
    using ready_other(2) [OF b'(3), of DEPENDS_ON] by simp
  from a have "target_count s \<noteq> None"
    by (auto simp: create_basic_tree_def undefined_behaviour_def split: option.splits)
  with a' b' d show ?thesis by (simp add: tables_in_step_def)
qed

lemma add_target_count:
  assumes "add_target t s = Inr (x, s')"
  shows "target_count s' = Some (case target_count s of None \<Rightarrow> 1 | Some n \<Rightarrow> Suc n)
         \<and> (\<forall>r. r \<noteq> TARGET \<longrightarrow> syntax_rules s' r = syntax_rules s r)"
  using assms
  unfolding add_target_def Let_def
  by (auto simp: fatal_def undefined_behaviour_def target_count_def size_at_def cell_def
                 update_slots_def
           split: sum.splits bool.splits if_splits option.splits list.splits ptr.splits prod.splits)


lemma store_in_list_len:
  assumes "store_in_list r w nl ct s = Inr (x, s')"
  shows "(\<forall>r'. r' \<noteq> r \<longrightarrow> syntax_rules s' r' = syntax_rules s r')
         \<and> (table_len r s \<noteq> None \<longrightarrow> table_len r s' = table_len r s)"
  using assms
  unfolding store_in_list_def
  by (auto simp: fatal_def undefined_behaviour_def table_len_def update_slots_def
           split: option.splits ptr.splits if_splits)

lemma in_step_after_store:
  assumes "store_in_list r w nl ct s = Inr (x, s')"
    and "tables_in_step s" and "target_count s' = target_count s"
  shows "tables_in_step s'"
proof -
  from store_in_list_len [OF assms(1)]
  have o: "\<forall>r'. r' \<noteq> r \<longrightarrow> syntax_rules s' r' = syntax_rules s r'"
    and k: "table_len r s \<noteq> None \<longrightarrow> table_len r s' = table_len r s" by simp_all
  have other: "\<And>q. q \<noteq> r \<Longrightarrow> table_len q s' = table_len q s"
    using o by (simp add: table_len_def)
  have "table_len DEPENDS_ON s' = table_len DEPENDS_ON s"
    using other [of DEPENDS_ON] k assms(2) by (cases "r = DEPENDS_ON") (auto simp: tables_in_step_def)
  moreover have "table_len CREATED_USING s' = table_len CREATED_USING s"
    using other [of CREATED_USING] k assms(2)
    by (cases "r = CREATED_USING") (auto simp: tables_in_step_def)
  ultimately show ?thesis using assms(2,3) by (simp add: tables_in_step_def)
qed

lemma scope_in_step:
  assumes "scope r w st s = Inr (x, s')" and "tables_in_step s"
  shows "tables_in_step s' \<and> target_count s' = target_count s"
proof (cases "w = ''{''")
  case True
  show ?thesis
  proof (cases r)
    case TARGET
    with assms(1) True obtain st' where "target_scope_block_opened s = Inr (st', s')"
      by (auto simp: scope_def split: sum.splits prod.splits)
    from target_scope_block_opened_len [OF this] in_step_ready [OF assms(2)]
    show ?thesis by simp
  next
    case DEFINE_AS
    with assms True show ?thesis by (simp add: scope_def fatal_def)
  next
    case BUILD
    with assms True show ?thesis by (simp add: scope_def fatal_def)
  next
    case DEPENDS_ON
    with assms True show ?thesis
      by (auto simp: scope_def depends_on_scope_block_opened_def)
  next
    case CREATED_USING
    with assms True show ?thesis
      by (auto simp: scope_def created_using_scope_block_opened_def)
  qed
next
  case False
  with assms show ?thesis by (auto simp: scope_def split: if_splits)
qed

lemma scope_false_same: "scope r w st s = Inr ((False, st'), s') \<Longrightarrow> s' = s"
  by (auto simp: scope_def fatal_def split: if_splits option.splits sum.splits prod.splits)

lemma handle_list_in_step:
  assumes "handle_list r w st nl s = Inr (x, s')"
    and "tables_in_step s" and "target_count s' = target_count s"
  shows "tables_in_step s'"
proof -
  from assms(1) obtain n where n: "target_count s = Some n"
    by (auto simp: handle_list_def undefined_behaviour_def split: option.splits)
  from assms(1) n obtain b st1 s1 where sc: "scope r w st s = Inr ((b, st1), s1)"
    by (auto simp: handle_list_def split: sum.splits)
  show ?thesis
  proof (cases b)
    case True
    with assms(1) n sc have "s' = s1" by (auto simp: handle_list_def)
    with scope_in_step [OF sc assms(2)] show ?thesis by simp
  next
    case False
    with sc have e: "s1 = s" by (auto dest: scope_false_same)
    from assms(1) n sc False e obtain y where
      "store_in_list r w nl (n - 1) s = Inr (y, s')"
      by (auto simp: handle_list_def fatal_def undefined_behaviour_def
               split: if_splits sum.splits)
    from in_step_after_store [OF this assms(2,3)] show ?thesis .
  qed
qed

lemma add_symbol_same_rules:
  assumes "add_symbol r w s = Inr (x, s')" and "target_count s' = target_count s"
  shows "syntax_rules s' = syntax_rules s"
proof (cases r)
  case TARGET
  with assms(1) have "add_target w s = Inr (x, s')" by (simp add: add_symbol_def)
  from add_target_count [OF this] assms(2) show ?thesis
    by (auto split: option.splits)
next
  case DEFINE_AS
  with assms(1) show ?thesis
    by (auto simp: add_symbol_def add_define_def split: define_state.splits)
next
  case BUILD
  with assms(1) show ?thesis
    by (auto simp: add_symbol_def set_build_target_def fatal_def split: option.splits)
next
  case DEPENDS_ON
  with assms(1) show ?thesis by (simp add: add_symbol_def)
next
  case CREATED_USING
  with assms(1) show ?thesis by (simp add: add_symbol_def)
qed

lemma step_done_same_rules: "step_done recipe s = Inr (x, s') \<Longrightarrow> syntax_rules s' = syntax_rules s"
  by (auto simp: step_done_def undefined_behaviour_def reset_level_def pop_level_def
           split: option.splits if_splits)

lemma check_rule_in_step:
  "check_rule r w st nl s = Inr (x, s') \<Longrightarrow> tables_in_step s
     \<Longrightarrow> target_count s' = target_count s \<Longrightarrow> tables_in_step s'"
proof (induction rule: check_rule_result_induct)
  case (closed s)
  have "syntax_rules s' = syntax_rules s" using closed(2) by (simp add: reset_level_def)
  from same_rules(3) [OF this] closed(3) show ?case by simp
next
  case (matched s recipe)
  from step_done_same_rules [OF matched(1)] have "syntax_rules s' = syntax_rules s" by simp
  from same_rules(3) [OF this] matched(2) show ?case by simp
next
  case (brace s)
  have "syntax_rules s' = syntax_rules s" using brace(2) by (simp add: reset_level_def pop_level_def)
  from same_rules(3) [OF this] brace(3) show ?case by simp
next
  case (retry s)
  let ?s1 = "s\<lparr>recipe_i := set_reg (recipe_i s) (recursion_level s)
                                  (Suc (reg (recipe_i s) (recursion_level s)))\<rparr>"
  have e: "syntax_rules ?s1 = syntax_rules s" by simp
  from retry(1) same_rules(1) [OF e] same_rules(3) [OF e] retry(2,3) show ?case by simp
next
  case (nested s y)
  let ?s0 = "s\<lparr>recursion_level := Suc (recursion_level s)\<rparr>"
  have e: "syntax_rules ?s0 = syntax_rules s" by simp
  from scope_in_step [OF nested(1)] nested(3) same_rules(3) [OF e] show ?case by simp
next
  case (symbol s y s1 recipe)
  from step_done_same_rules [OF symbol(2)] have e: "syntax_rules s' = syntax_rules s1" by simp
  from same_rules(1) [OF e] symbol(4) have "target_count s1 = target_count s" by simp
  from add_symbol_same_rules [OF symbol(1) this] e have "syntax_rules s' = syntax_rules s" by simp
  from same_rules(3) [OF this] symbol(3) show ?case by simp
next
  case (listed s b st1 s1)
  from listed(2) have e: "syntax_rules s' = syntax_rules s1"
    by (auto simp: reset_level_def split: if_splits)
  from same_rules(1) [OF e] listed(4) have "target_count s1 = target_count s" by simp
  from handle_list_in_step [OF listed(1) listed(3) this] same_rules(3) [OF e] show ?case by simp
next
  case (ended s)
  have "syntax_rules s' = syntax_rules s" using ended(2) by (simp add: reset_level_def pop_level_def)
  from same_rules(3) [OF this] ended(3) show ?case by simp
qed

lemma try_rules_in_step:
  "try_rules rs w st nl s = Inr (x, s') \<Longrightarrow> tables_in_step s
     \<Longrightarrow> target_count s' = target_count s \<Longrightarrow> tables_in_step s'"
proof (induction rs arbitrary: st s)
  case Nil
  then show ?case by simp
next
  case (Cons r rs)
  from Cons.prems(1) obtain b st1 s1 where c: "check_rule r w st nl s = Inr ((b, st1), s1)"
    by (auto split: sum.splits)
  show ?case
  proof (cases b)
    case True
    with Cons.prems(1) c have "s' = s1" by auto
    with check_rule_in_step [OF c Cons.prems(2)] Cons.prems(3) show ?thesis by simp
  next
    case False
    with c check_rule_false [of r w st nl s st1 s1]
    have e: "syntax_rules s1 = syntax_rules s" by (simp add: store_def)
    from Cons.prems(1) c False have t: "try_rules rs w st1 nl s1 = Inr (x, s')" by simp
    from Cons.IH [OF t] same_rules(1) [OF e] same_rules(3) [OF e] Cons.prems(2,3)
    show ?thesis by simp
  qed
qed

lemma check_word_in_step:
  assumes "check_word w nl st rc s = Inr (x, s')"
    and "tables_in_step s" and "target_count s' = target_count s"
  shows "tables_in_step s'"
proof (cases st)
  case SEARCHING
  with assms(1) obtain y where "try_rules rule_order w SEARCHING nl s = Inr (y, s')"
    by (auto simp: check_word_def split: sum.splits prod.splits option.splits)
  from try_rules_in_step [OF this assms(2,3)] show ?thesis .
next
  case CHECKING
  with assms(1) obtain r y where "check_rule r w CHECKING nl s = Inr (y, s')"
    by (auto simp: check_word_def undefined_behaviour_def
             split: sum.splits prod.splits option.splits)
  from check_rule_in_step [OF this assms(2,3)] show ?thesis .
qed

text \<open>
  Claim C8 says that from the moment a target's block is entered until the end of
  parsing the dependency table and the command table each have exactly as many entries
  as the target table. It fails: after \<open>target a { }\<close> and \<open>target b\<close> the parse
  ends normally, the block of \<open>a\<close> has been entered, two targets are registered and
  each of the two tables has one entry.
\<close>

theorem tables_lag_behind_targets:
  "outcome (check_syntax 10 (loaded no_options no_files two_headers)) = Inr 0
   \<and> current_scope (final (check_syntax 10 (loaded no_options no_files two_headers))) = Some ''a''
   \<and> target_count (final (check_syntax 10 (loaded no_options no_files two_headers))) = Some 2
   \<and> table_len DEPENDS_ON (final (check_syntax 10 (loaded no_options no_files two_headers))) = Some 1
   \<and> table_len CREATED_USING (final (check_syntax 10 (loaded no_options no_files two_headers))) = Some 1"
  by code_simp

text \<open>
  Claim C8 as amended. When the \<open>{\<close> of a target header is consumed
  (\<open>target_scope_block_opened\<close> returns) and both tables were ready, the dependency
  table and the command table each have exactly as many entries as the target table.
  They stay so through every later word of the parse that leaves the number of targets
  unchanged. Registering a target name makes the target table one entry longer and
  leaves the two tables as they were, until that target's block is entered in turn.
\<close>

theorem tables_follow_target_blocks:
  "(target_scope_block_opened s = Inr (st, sa) \<and> ready DEPENDS_ON s \<and> ready CREATED_USING s
      \<longrightarrow> tables_in_step sa)
   \<and> (tables_in_step t \<and> check_word word nl state rc t = Inr (x, tb)
        \<and> target_count tb = target_count t
      \<longrightarrow> tables_in_step tb)
   \<and> (tables_in_step t \<and> add_target target t = Inr (y, tc)
      \<longrightarrow> target_count tc = map_option Suc (target_count t)
          \<and> table_len DEPENDS_ON tc = target_count t
          \<and> table_len CREATED_USING tc = target_count t)"
proof (intro conjI impI)
  assume "target_scope_block_opened s = Inr (st, sa) \<and> ready DEPENDS_ON s \<and> ready CREATED_USING s"
  with target_scope_block_opened_len [of s st sa] show "tables_in_step sa" by simp
next
  assume "tables_in_step t \<and> check_word word nl state rc t = Inr (x, tb)
          \<and> target_count tb = target_count t"
  with check_word_in_step [of word nl state rc t x tb] show "tables_in_step tb" by simp
next
  assume a: "tables_in_step t \<and> add_target target t = Inr (y, tc)"
  then have c: "target_count tc = Some (case target_count t of None \<Rightarrow> 1 | Some n \<Rightarrow> Suc n)"
    and o: "\<forall>r. r \<noteq> TARGET \<longrightarrow> syntax_rules tc r = syntax_rules t r"
    using add_target_count [of target t y tc] by simp_all
  from a c show "target_count tc = map_option Suc (target_count t)"
    by (auto simp: tables_in_step_def)
  from a o show "table_len DEPENDS_ON tc = target_count t"
    by (simp add: tables_in_step_def table_len_def)
  from a o show "table_len CREATED_USING tc = target_count t"
    by (simp add: tables_in_step_def table_len_def)
qed

theorem tables_follow_target_blocks_witness:
  "target_scope_block_opened header_only
     = Inr (CHECKING, final (target_scope_block_opened header_only))
   \<and> ready DEPENDS_ON header_only \<and> ready CREATED_USING header_only
   \<and> tables_in_step (final (target_scope_block_opened header_only))
   \<and> tables_in_step block_entered
   \<and> check_word ''depends'' False SEARCHING None block_entered
       = Inr ((CHECKING, Some DEPENDS_ON),
              final (check_word ''depends'' False SEARCHING None block_entered))
   \<and> target_count (final (check_word ''depends'' False SEARCHING None block_entered))
       = target_count block_entered
   \<and> tables_in_step (final (check_word ''depends'' False SEARCHING None block_entered))
   \<and> add_target ''b'' block_entered = Inr ((), final (add_target ''b'' block_entered))
   \<and> target_count block_entered = Some 1
   \<and> target_count (final (add_target ''b'' block_entered)) = Some 2
   \<and> table_len DEPENDS_ON (final (add_target ''b'' block_entered)) = Some 1
   \<and> table_len CREATED_USING (final (add_target ''b'' block_entered)) = Some 1"
proof -
  have "outcome (target_scope_block_opened header_only) = Inr CHECKING" by code_simp
  then have a1: "target_scope_block_opened header_only
                   = Inr (CHECKING, final (target_scope_block_opened header_only))"
    by (rule outcome_final)
  have a2: "ready DEPENDS_ON header_only" by code_simp
  have a3: "ready CREATED_USING header_only" by code_simp
  have b1: "tables_in_step block_entered" by code_simp
  have "outcome (check_word ''depends'' False SEARCHING None block_entered)
          = Inr (CHECKING, Some DEPENDS_ON)" by code_simp
  then have b2: "check_word ''depends'' False SEARCHING None block_entered
                   = Inr ((CHECKING, Some DEPENDS_ON),
                          final (check_word ''depends'' False SEARCHING None block_entered))"
    by (rule outcome_final)
  have b3: "target_count (final (check_word ''depends'' False SEARCHING None block_entered))
              = target_count block_entered" by code_simp
  have "outcome (add_target ''b'' block_entered) = Inr ()" by code_simp
  then have c1: "add_target ''b'' block_entered = Inr ((), final (add_target ''b'' block_entered))"
    by (rule outcome_final)
  have c2: "target_count block_entered = Some 1" by code_simp
  from tables_follow_target_blocks
         [where s = header_only and st = CHECKING
            and sa = "final (target_scope_block_opened header_only)"
            and t = block_entered and word = "''depends''" and nl = False
            and state = SEARCHING and rc = None and x = "(CHECKING, Some DEPENDS_ON)"
            and tb = "final (check_word ''depends'' False SEARCHING None block_entered)"
            and target = "''b''" and y = "()"
            and tc = "final (add_target ''b'' block_entered)"]
       a1 a2 a3 b1 b2 b3 c1 c2
  show ?thesis by simp
qed

end
